theory Spec2Isabelle
  imports Main "HOL-Library.Word"
begin

section \<open>The double-array trie dictionary of OpenCC\<close>

text \<open>
  A shallow embedding of \<^verbatim>\<open>src/dictionary/opencc_dictionary_datrie.c\<close>.

  Integer types follow the LP64 platform the code is written for: \<^verbatim>\<open>int\<close> and
  \<^verbatim>\<open>wchar_t\<close> are 32-bit signed words whose addition wraps around, \<^verbatim>\<open>size_t\<close>
  is an unsigned 64-bit quantity. Counters of type \<^verbatim>\<open>size_t\<close> that only count
  positions of a string held in memory (\<^verbatim>\<open>p\<close>, \<^verbatim>\<open>i\<close>, \<^verbatim>\<open>rscnt\<close>) are natural
  numbers; where the code multiplies or adds sizes read from a file the reduction
  modulo \<open>2 ^ 64\<close> is written out.

  A read through a pointer that leaves the memory the pointer refers to is undefined
  behaviour in C. It is a value of the model: every function that reads memory returns
  \<open>fault + 'a\<close>, with \<open>Inl\<close> for the fault.
\<close>

type_synonym byte = "8 word"
type_synonym c_int = "32 word"
type_synonym wchar_t = "32 word"

datatype fault = OutOfBounds | NullPointer | InvalidPointer

subsection \<open>Data\<close>

datatype memory_type = MEMORY_TYPE_MMAP | MEMORY_TYPE_ALLOCATE | MEMORY_TYPE_OTHER
  \<comment> \<open>a C enum object can hold a value that is neither enumerator; \<open>unload_dict\<close> has a
      branch for it\<close>

text \<open>
  Modelled from the spec: \<^verbatim>\<open>DoubleArrayTrieItem\<close> is declared in
  \<^verbatim>\<open>opencc_dictionary_datrie.h\<close>, which is not among the sources. The spec (section 3)
  gives a fixed-size record of three fields, \<open>base\<close> (a signed integer), \<open>parent\<close> (the
  index of the parent node) and \<open>word\<close> (an offset into the lexicon, or the marker
  \<open>-1\<close>); the code assigns them to and compares them with \<^verbatim>\<open>int\<close>.
\<close>

record DoubleArrayTrieItem =
  base :: c_int
  parent :: c_int
  word :: c_int

text \<open>
  The pointers \<^verbatim>\<open>dat\<close> and \<^verbatim>\<open>lexicon\<close> are views into \<^verbatim>\<open>dic_memory\<close>: each is
  modelled by the list of elements that can be read through it, from the address it
  holds to the end of the memory region. The list is independent of the counts
  \<open>dat_item_count\<close> and \<open>lexicon_length\<close>, which are whatever the file header declares. A
  null pointer is the empty view. \<^verbatim>\<open>dic_memory\<close> is compared with \<^verbatim>\<open>NULL\<close> by the
  code, so it is an option.
\<close>

record datrie_dictionary =
  dat :: "DoubleArrayTrieItem list"
  dat_item_count :: nat
  lexicon :: "wchar_t list"
  lexicon_length :: nat
  dic_memory :: "byte list option"
  dic_size :: nat
  dic_memory_type :: memory_type

subsection \<open>Reading memory\<close>

definition dat_at :: "datrie_dictionary \<Rightarrow> nat \<Rightarrow> fault + DoubleArrayTrieItem" where
  \<comment> \<open>\<^verbatim>\<open>dd->dat[i]\<close>\<close>
  "dat_at dd i = (if i < length (dat dd) then Inr (dat dd ! i) else Inl OutOfBounds)"

definition wchar_at :: "wchar_t list \<Rightarrow> nat \<Rightarrow> wchar_t" where
  \<comment> \<open>\<^verbatim>\<open>word[p]\<close> of a string whose terminating zero follows the listed characters\<close>
  "wchar_at w p = (if p < length w then w ! p else 0)"

definition to_size_t :: "c_int \<Rightarrow> nat" where
  \<comment> \<open>the conversion of an \<^verbatim>\<open>int\<close> to \<^verbatim>\<open>size_t\<close> in a mixed comparison\<close>
  "to_size_t x = nat (sint x mod 2 ^ 64)"

definition encode_char :: "wchar_t \<Rightarrow> c_int" where
  "encode_char ch = ch"

subsection \<open>The bounded step match\<close>

text \<open>
  The \<^verbatim>\<open>for\<close> loop of \<open>datrie_match\<close>, from the state \<open>(i, p)\<close>. The parameter \<open>unused\<close>
  is the constant \<^verbatim>\<open>DATRIE_UNUSED\<close> of the missing header. The conditions are
  evaluated in the order of the source, so \<^verbatim>\<open>dd->dat[i]\<close> is read only when the first
  two conjuncts hold, and \<^verbatim>\<open>dd->dat[j]\<close> only when \<open>j\<close> is within the declared count.
\<close>

function datrie_match_loop ::
  "c_int \<Rightarrow> datrie_dictionary \<Rightarrow> wchar_t list \<Rightarrow> nat \<Rightarrow> nat \<Rightarrow> nat \<Rightarrow> fault + (nat \<times> nat)"
where
  "datrie_match_loop unused dd w limit i p =
     (if wchar_at w p \<noteq> 0 \<and> (limit = 0 \<or> p < limit) then
        (case dat_at dd i of
           Inl f \<Rightarrow> Inl f
         | Inr it \<Rightarrow>
             if base it \<noteq> unused then
               (let k = encode_char (wchar_at w p);
                    j = base it + k
                in if j <s 0 \<or> dat_item_count dd \<le> nat (sint j) then Inr (p, i)
                   else (case dat_at dd (nat (sint j)) of
                           Inl f \<Rightarrow> Inl f
                         | Inr it' \<Rightarrow>
                             if to_size_t (parent it') \<noteq> i then Inr (p, i)
                             else datrie_match_loop unused dd w limit (nat (sint j)) (p + 1)))
             else Inr (p, i))
      else Inr (p, i))"
  by pat_completeness auto
termination
  by (relation "measure (\<lambda>(unused, dd, w, limit, i, p). length w - p)")
     (auto simp: wchar_at_def split: if_splits)

definition datrie_match ::
  "c_int \<Rightarrow> datrie_dictionary \<Rightarrow> wchar_t list \<Rightarrow> nat \<Rightarrow> fault + (nat \<times> nat)"
where
  \<comment> \<open>the pair is \<open>(*match_pos, *id)\<close>; both out-pointers are non-null at every call\<close>
  "datrie_match unused dd w limit = datrie_match_loop unused dd w limit 0 0"

declare datrie_match_loop.simps [simp del]

lemma datrie_match_loop_le_limit:
  "datrie_match_loop unused dd w limit i p = Inr (p', i') \<Longrightarrow> 0 < limit \<Longrightarrow> p \<le> limit
     \<Longrightarrow> p' \<le> limit"
proof (induction "length w - p" arbitrary: i p rule: less_induct)
  case less
  have IH: "p' \<le> limit"
    if "datrie_match_loop unused dd w limit j (Suc p) = Inr (p', i')" "p < length w" "p < limit"
    for j
    using less.hyps [of "Suc p" j] that less.prems(2) by simp
  from less.prems(1) have "p' = p \<or>
      (p < length w \<and> p < limit \<and>
       (\<exists>j. datrie_match_loop unused dd w limit j (Suc p) = Inr (p', i')))"
    using less.prems(2)
    by (subst (asm) datrie_match_loop.simps)
       (auto simp: Let_def wchar_at_def split: if_splits sum.splits)
  with IH less.prems(3) show ?case by auto
qed

lemma datrie_match_le_limit:
  "datrie_match unused dd w limit = Inr (pos, item) \<Longrightarrow> 0 < limit \<Longrightarrow> pos \<le> limit"
  unfolding datrie_match_def by (erule datrie_match_loop_le_limit) simp_all

subsection \<open>Longest match\<close>

text \<open>
  The \<^verbatim>\<open>while\<close> loop of \<open>dict_datrie_match_longest\<close>, from the state \<open>(pos, item)\<close>.
  Its condition reads \<^verbatim>\<open>dd->dat[item].word\<close> before it tests \<open>pos\<close>.
\<close>

function match_longest_while ::
  "c_int \<Rightarrow> datrie_dictionary \<Rightarrow> wchar_t list \<Rightarrow> nat \<Rightarrow> nat \<Rightarrow> fault + (nat \<times> nat)"
where
  "match_longest_while unused dd w pos item =
     (case dat_at dd item of
        Inl f \<Rightarrow> Inl f
      | Inr it \<Rightarrow>
          if word it = - 1 \<and> 1 < pos then
            (case datrie_match unused dd w (pos - 1) of
               Inl f \<Rightarrow> Inl f
             | Inr (pos', item') \<Rightarrow> match_longest_while unused dd w pos' item')
          else Inr (pos, item))"
  by pat_completeness auto
termination
proof (relation "measure (\<lambda>(unused, dd, w, pos, item). pos)", goal_cases)
  case 1
  show ?case by simp
next
  case (2 unused dd w pos item it r pos' item')
  then have "datrie_match unused dd w (pos - 1) = Inr (pos', item')" and "1 < pos"
    by simp_all
  then have "pos' \<le> pos - 1"
    by (auto dest: datrie_match_le_limit)
  with \<open>1 < pos\<close> show ?case by simp
qed

declare match_longest_while.simps [simp del]

text \<open>
  The same loop with a bound on the number of times its body runs: \<open>None\<close> when the
  bound is used up before the loop condition fails.
\<close>

fun match_longest_while_fuel ::
  "nat \<Rightarrow> c_int \<Rightarrow> datrie_dictionary \<Rightarrow> wchar_t list \<Rightarrow> nat \<Rightarrow> nat
     \<Rightarrow> (fault + (nat \<times> nat)) option"
where
  "match_longest_while_fuel fuel unused dd w pos item =
     (case dat_at dd item of
        Inl f \<Rightarrow> Some (Inl f)
      | Inr it \<Rightarrow>
          if word it = - 1 \<and> 1 < pos then
            (case fuel of
               0 \<Rightarrow> None
             | Suc fuel' \<Rightarrow>
                 (case datrie_match unused dd w (pos - 1) of
                    Inl f \<Rightarrow> Some (Inl f)
                  | Inr (pos', item') \<Rightarrow> match_longest_while_fuel fuel' unused dd w pos' item'))
          else Some (Inr (pos, item)))"

declare match_longest_while_fuel.simps [simp del]

text \<open>
  The result is the returned pointer: \<open>None\<close> is \<^verbatim>\<open>NULL\<close>, and \<open>Some off\<close> is
  \<^verbatim>\<open>dd->lexicon + off\<close>, an offset counted in characters.
\<close>

definition dict_datrie_match_longest ::
  "c_int \<Rightarrow> datrie_dictionary \<Rightarrow> wchar_t list \<Rightarrow> nat \<Rightarrow> fault + int option"
where
  "dict_datrie_match_longest unused dd w len =
     (case datrie_match unused dd w len of
        Inl f \<Rightarrow> Inl f
      | Inr (pos0, item0) \<Rightarrow>
          (case match_longest_while unused dd w pos0 item0 of
             Inl f \<Rightarrow> Inl f
           | Inr (pos, item) \<Rightarrow>
               if pos = 0 then Inr None
               else (case dat_at dd item of
                       Inl f \<Rightarrow> Inl f
                     | Inr it \<Rightarrow>
                         if word it = - 1 then Inr None else Inr (Some (sint (word it))))))"

subsection \<open>All match lengths\<close>

text \<open>
  The \<^verbatim>\<open>for\<close> loop of \<open>dict_datrie_get_all_match_lengths\<close>. The caller's array
  \<^verbatim>\<open>match_length\<close> is a list of the length the caller gave it; the code writes
  \<^verbatim>\<open>match_length[rscnt ++]\<close> without a test against that length, so a write past
  the end is a fault of the model. The result is \<open>rscnt\<close> and the array as left.
\<close>

function all_match_lengths_loop ::
  "c_int \<Rightarrow> datrie_dictionary \<Rightarrow> wchar_t list \<Rightarrow> nat list \<Rightarrow> nat \<Rightarrow> nat \<Rightarrow> nat
     \<Rightarrow> fault + (nat \<times> nat list)"
where
  "all_match_lengths_loop unused dd w match_length rscnt i p =
     (if wchar_at w p \<noteq> 0 then
        (case dat_at dd i of
           Inl f \<Rightarrow> Inl f
         | Inr it \<Rightarrow>
             if base it \<noteq> unused then
               (let k = encode_char (wchar_at w p);
                    j = base it + k
                in if j <s 0 \<or> dat_item_count dd \<le> nat (sint j) then Inr (rscnt, match_length)
                   else (case dat_at dd (nat (sint j)) of
                           Inl f \<Rightarrow> Inl f
                         | Inr it' \<Rightarrow>
                             if to_size_t (parent it') \<noteq> i then Inr (rscnt, match_length)
                             else if word it' \<noteq> - 1 then
                               (if rscnt < length match_length then
                                  all_match_lengths_loop unused dd w
                                    (match_length[rscnt := p + 1]) (rscnt + 1) (nat (sint j)) (p + 1)
                                else Inl OutOfBounds)
                             else all_match_lengths_loop unused dd w match_length rscnt
                                    (nat (sint j)) (p + 1)))
             else Inr (rscnt, match_length))
      else Inr (rscnt, match_length))"
  by pat_completeness auto
termination
  by (relation "measure (\<lambda>(unused, dd, w, match_length, rscnt, i, p). length w - p)")
     (auto simp: wchar_at_def split: if_splits)

declare all_match_lengths_loop.simps [simp del]

definition dict_datrie_get_all_match_lengths ::
  "c_int \<Rightarrow> datrie_dictionary \<Rightarrow> wchar_t list \<Rightarrow> nat list \<Rightarrow> fault + (nat \<times> nat list)"
where
  "dict_datrie_get_all_match_lengths unused dd w match_length =
     all_match_lengths_loop unused dd w match_length 0 0 0"

subsection \<open>Loading and releasing a dictionary\<close>

text \<open>
  The operating system is a record: the files that can be opened, the answers of
  \<^verbatim>\<open>mmap\<close>, \<^verbatim>\<open>malloc\<close> (of the dictionary buffer) and \<^verbatim>\<open>munmap\<close>, the page size,
  the address \<open>next_handle\<close> that \<^verbatim>\<open>malloc(sizeof(datrie_dictionary))\<close> returns (\<open>0\<close>
  when it fails) with the indeterminate content \<open>uninitialised\<close> of that memory, the
  handle structures that are allocated, and counts of the mapped regions, heap
  buffers and open streams. A \<^verbatim>\<open>FILE *\<close> and a file descriptor are the bytes of the
  file; a null stream is \<open>None\<close>. \<^verbatim>\<open>read\<close> is taken to transfer the \<open>dic_size\<close> bytes
  it is asked for.

  The two kinds of region differ in what lies behind the file's bytes. A mapping
  consists of whole pages: the bytes of the file are followed by zeros up to the end
  of the last page, and only a read past that end is a fault. A heap buffer holds
  exactly the \<open>dic_size\<close> bytes it was allocated with, and a read past them is a
  fault. \<open>mmap_fails\<close> is the answer of \<^verbatim>\<open>mmap\<close> whatever its reason, the refusal of
  an empty file included.
\<close>

type_synonym dict_ptr = "64 word"

record os_state =
  files :: "string \<Rightarrow> byte list option"
  mmap_fails :: bool
  malloc_fails :: bool
  munmap_fails :: bool
  page_size :: nat
  next_handle :: dict_ptr
  uninitialised :: datrie_dictionary
  handles :: "dict_ptr \<Rightarrow> datrie_dictionary option"
  mapped_regions :: nat
  heap_buffers :: nat
  open_streams :: nat

text \<open>
  The layout of the region is the platform's: little-endian, \<^verbatim>\<open>size_t\<close> of 8 bytes,
  \<^verbatim>\<open>wchar_t\<close> of 4 bytes, and a trie item of three 4-byte integers with no padding.
\<close>

definition le_nat :: "byte list \<Rightarrow> nat" where
  "le_nat bs = foldr (\<lambda>b n. unat b + 256 * n) bs 0"

definition read_size_t :: "byte list \<Rightarrow> nat \<Rightarrow> fault + nat" where
  \<comment> \<open>\<^verbatim>\<open>*((size_t *) (mem + off))\<close>\<close>
  "read_size_t mem off =
     (if off + 8 \<le> length mem then Inr (le_nat (take 8 (drop off mem))) else Inl OutOfBounds)"

fun wchars_of :: "byte list \<Rightarrow> wchar_t list" where
  "wchars_of (b0 # b1 # b2 # b3 # bs) = word_of_nat (le_nat [b0, b1, b2, b3]) # wchars_of bs"
| "wchars_of bs = []"

fun items_of :: "byte list \<Rightarrow> DoubleArrayTrieItem list" where
  "items_of (a0 # a1 # a2 # a3 # b0 # b1 # b2 # b3 # c0 # c1 # c2 # c3 # bs) =
     \<lparr>base = word_of_nat (le_nat [a0, a1, a2, a3]),
      parent = word_of_nat (le_nat [b0, b1, b2, b3]),
      word = word_of_nat (le_nat [c0, c1, c2, c3])\<rparr> # items_of bs"
| "items_of bs = []"

text \<open>
  The two library functions the header test uses. The second argument of \<open>strncmp\<close>
  is a string literal, read with a zero after its last character; the first is the
  region, where a read past the end is a fault.
\<close>

definition strlen :: "byte list \<Rightarrow> nat" where
  "strlen s = length (takeWhile (\<lambda>c. c \<noteq> 0) s)"

fun strncmp :: "byte list \<Rightarrow> byte list \<Rightarrow> nat \<Rightarrow> fault + int" where
  "strncmp s1 s2 0 = Inr 0"
| "strncmp s1 s2 (Suc n) =
     (case s1 of
        [] \<Rightarrow> Inl OutOfBounds
      | c1 # r1 \<Rightarrow>
          (let c2 = (case s2 of [] \<Rightarrow> 0 | c # _ \<Rightarrow> c)
           in if c1 \<noteq> c2 then Inr (int (unat c1) - int (unat c2))
              else if c1 = 0 then Inr 0
              else strncmp r1 (tl s2) n))"

definition load_allocate ::
  "os_state \<Rightarrow> datrie_dictionary \<Rightarrow> byte list \<Rightarrow> int \<times> datrie_dictionary \<times> os_state"
where
  "load_allocate s dd fd =
     (let dd = dd\<lparr>dic_memory_type := MEMORY_TYPE_ALLOCATE\<rparr>
      in if malloc_fails s then (- 1, dd\<lparr>dic_memory := None\<rparr>, s)
         else (0, dd\<lparr>dic_memory := Some (take (dic_size dd) fd)\<rparr>,
               s\<lparr>heap_buffers := heap_buffers s + 1\<rparr>))"

definition page_padding :: "nat \<Rightarrow> nat \<Rightarrow> nat" where
  \<comment> \<open>the number of bytes between the end of \<open>n\<close> bytes and the end of their last page\<close>
  "page_padding ps n = (ps - n mod ps) mod ps"

definition load_mmap ::
  "os_state \<Rightarrow> datrie_dictionary \<Rightarrow> byte list \<Rightarrow> int \<times> datrie_dictionary \<times> os_state"
where
  "load_mmap s dd fd =
     (let dd = dd\<lparr>dic_memory_type := MEMORY_TYPE_MMAP\<rparr>
      in if mmap_fails s then (- 1, dd\<lparr>dic_memory := None\<rparr>, s)
         else (0, dd\<lparr>dic_memory :=
                       Some (take (dic_size dd) fd
                             @ replicate (page_padding (page_size s) (dic_size dd)) 0)\<rparr>,
               s\<lparr>mapped_regions := mapped_regions s + 1\<rparr>))"

text \<open>
  The second half of \<open>load_dict\<close>, from the computation of \<^verbatim>\<open>header_len\<close> on: the
  test of the header and the placement of the two views. The parameter \<open>hdr\<close> is
  the string \<^verbatim>\<open>OPENCC_DICHEADER\<close> of the missing header. Sizes are reduced modulo
  \<open>2 ^ 64\<close> where the code multiplies or adds a number read from the region. No
  step compares an offset with \<open>dic_size\<close>.
\<close>

definition load_dict_parse ::
  "byte list \<Rightarrow> datrie_dictionary \<Rightarrow> fault + (int \<times> datrie_dictionary)"
where
  "load_dict_parse hdr dd =
     (case dic_memory dd of
        None \<Rightarrow> Inl NullPointer
      | Some mem \<Rightarrow>
          (let header_len = strlen hdr in
           case strncmp mem hdr header_len of
             Inl f \<Rightarrow> Inl f
           | Inr c \<Rightarrow>
               if c \<noteq> 0 then Inr (- 1, dd)
               else
                 (let offset = header_len in
                  case read_size_t mem offset of
                    Inl f \<Rightarrow> Inl f
                  | Inr n \<Rightarrow>
                      (let dd = dd\<lparr>lexicon_length := n\<rparr>;
                           offset = offset + 8
                       in case read_size_t mem offset of
                            Inl f \<Rightarrow> Inl f
                          | Inr m \<Rightarrow>
                              (let dd = dd\<lparr>dat_item_count := m\<rparr>;
                                   offset = offset + 8;
                                   lexicon_size = (lexicon_length dd * 4) mod 2 ^ 64;
                                   dd = dd\<lparr>lexicon := wchars_of (drop offset mem)\<rparr>;
                                   offset = (offset + lexicon_size) mod 2 ^ 64;
                                   dd = dd\<lparr>dat := items_of (drop offset mem)\<rparr>
                               in Inr (0, dd))))))"

definition load_dict ::
  "byte list \<Rightarrow> os_state \<Rightarrow> datrie_dictionary \<Rightarrow> byte list option
     \<Rightarrow> fault + (int \<times> datrie_dictionary \<times> os_state)"
where
  \<comment> \<open>\<^verbatim>\<open>fileno\<close>, \<^verbatim>\<open>fseek\<close> and \<^verbatim>\<open>ftell\<close> are applied to \<open>fp\<close> without a test\<close>
  "load_dict hdr s dd fp =
     (case fp of
        None \<Rightarrow> Inl NullPointer
      | Some fd \<Rightarrow>
          (let dd = dd\<lparr>dic_size := length fd\<rparr>;
               (rc, dd, s) = load_mmap s dd fd;
               (rc, dd, s) = (if rc = - 1 then load_allocate s dd fd else (rc, dd, s))
           in if rc = - 1 then Inr (- 1, dd, s)
              else (case load_dict_parse hdr dd of
                      Inl f \<Rightarrow> Inl f
                    | Inr (rc, dd) \<Rightarrow> Inr (rc, dd, s))))"

definition unload_dict :: "os_state \<Rightarrow> datrie_dictionary \<Rightarrow> int \<times> os_state" where
  "unload_dict s dd =
     (if dic_memory dd \<noteq> None then
        (if dic_memory_type dd = MEMORY_TYPE_MMAP then
           (if munmap_fails s then (- 1, s)
            else (0, s\<lparr>mapped_regions := mapped_regions s - 1\<rparr>))
         else if dic_memory_type dd = MEMORY_TYPE_ALLOCATE then
           (0, s\<lparr>heap_buffers := heap_buffers s - 1\<rparr>)
         else (- 1, s))
      else (0, s))"

text \<open>
  \<^verbatim>\<open>free(dd)\<close> removes the structure from \<open>handles\<close>. A pointer that is not the
  address of an allocated structure cannot be dereferenced.
\<close>

definition dict_datrie_close :: "os_state \<Rightarrow> dict_ptr \<Rightarrow> fault + (int \<times> os_state)" where
  "dict_datrie_close s dp =
     (case handles s dp of
        None \<Rightarrow> Inl InvalidPointer
      | Some dd \<Rightarrow>
          (let (rc, s) = unload_dict s dd
           in if rc = - 1 then Inr (- 1, s\<lparr>handles := (handles s)(dp := None)\<rparr>)
              else Inr (0, s\<lparr>handles := (handles s)(dp := None)\<rparr>)))"

text \<open>
  The result of \<open>dict_datrie_open\<close> is the returned pointer: \<^verbatim>\<open>(dict_ptr) -1\<close> is the
  word \<open>- 1\<close>, and \<^verbatim>\<open>NULL\<close> is \<open>0\<close>. The result of \<^verbatim>\<open>malloc\<close> is used without a
  test, and so is the result of \<^verbatim>\<open>fopen\<close>.
\<close>

definition dict_datrie_open ::
  "byte list \<Rightarrow> os_state \<Rightarrow> string \<Rightarrow> fault + (dict_ptr \<times> os_state)"
where
  "dict_datrie_open hdr s filename =
     (let dp = next_handle s in
      if dp = 0 then Inl NullPointer
      else
        (let dd = (uninitialised s)\<lparr>dat := [], lexicon := []\<rparr>;
             fp = files s filename;
             s = (if fp = None then s else s\<lparr>open_streams := open_streams s + 1\<rparr>)
         in case load_dict hdr s dd fp of
              Inl f \<Rightarrow> Inl f
            | Inr (rc, dd, s) \<Rightarrow>
                (let s = s\<lparr>handles := (handles s)(dp \<mapsto> dd)\<rparr>
                 in if rc = - 1 then
                      (case dict_datrie_close s dp of
                         Inl f \<Rightarrow> Inl f
                       | Inr (rc', s) \<Rightarrow> Inr (- 1, s))
                    else Inr (dp, s\<lparr>open_streams := open_streams s - 1\<rparr>))))"

section \<open>The specification's notions\<close>

text \<open>
  A dictionary is readable when its root and every item within the declared count
  lie in the memory that \<open>dat\<close> points to.
\<close>

definition readable :: "datrie_dictionary \<Rightarrow> bool" where
  "readable dd \<longleftrightarrow> dat dd \<noteq> [] \<and> dat_item_count dd \<le> length (dat dd)"

text \<open>
  The validity rule of the specification: the candidate index \<open>j = items[i].base + k\<close>,
  an \<^verbatim>\<open>int\<close> as in the code, is within \<open>0 \<le> j < item_count\<close>, and \<open>items[j].parent\<close>
  equals \<open>i\<close> in the comparison of an \<^verbatim>\<open>int\<close> with a \<^verbatim>\<open>size_t\<close>.
\<close>

definition candidate :: "datrie_dictionary \<Rightarrow> nat \<Rightarrow> wchar_t \<Rightarrow> c_int" where
  "candidate dd i k = base (dat dd ! i) + encode_char k"

definition valid_transition :: "datrie_dictionary \<Rightarrow> nat \<Rightarrow> wchar_t \<Rightarrow> bool" where
  "valid_transition dd i k \<longleftrightarrow>
     (let j = sint (candidate dd i k)
      in 0 \<le> j \<and> j < int (dat_item_count dd) \<and> to_size_t (parent (dat dd ! nat j)) = i)"

text \<open>
  The node at the end of the candidate indices of the first \<open>n\<close> characters, and the
  condition under which the walk advances over character \<open>n\<close>.
\<close>

fun node_after :: "datrie_dictionary \<Rightarrow> wchar_t list \<Rightarrow> nat \<Rightarrow> nat" where
  "node_after dd w 0 = 0"
| "node_after dd w (Suc n) = nat (sint (candidate dd (node_after dd w n) (wchar_at w n)))"

definition may_advance ::
  "c_int \<Rightarrow> datrie_dictionary \<Rightarrow> wchar_t list \<Rightarrow> nat \<Rightarrow> nat \<Rightarrow> bool"
where
  "may_advance unused dd w limit n \<longleftrightarrow>
     wchar_at w n \<noteq> 0 \<and> (limit = 0 \<or> n < limit) \<and>
     base (dat dd ! node_after dd w n) \<noteq> unused \<and>
     valid_transition dd (node_after dd w n) (wchar_at w n)"

text \<open>
  The pointer to the entry of the longest prefix, of one to \<open>q\<close> characters, whose
  node is terminal, and the lengths in \<open>p + 1 .. P\<close> whose node is terminal.
\<close>

fun longest_terminal :: "datrie_dictionary \<Rightarrow> wchar_t list \<Rightarrow> nat \<Rightarrow> int option" where
  "longest_terminal dd w 0 = None"
| "longest_terminal dd w (Suc q) =
     (if word (dat dd ! node_after dd w (Suc q)) \<noteq> - 1
      then Some (sint (word (dat dd ! node_after dd w (Suc q))))
      else longest_terminal dd w q)"

definition terminal_lengths ::
  "datrie_dictionary \<Rightarrow> wchar_t list \<Rightarrow> nat \<Rightarrow> nat \<Rightarrow> nat list"
where
  "terminal_lengths dd w p P =
     filter (\<lambda>q. word (dat dd ! node_after dd w q) \<noteq> - 1) [Suc p..<Suc P]"

text \<open>
  The region that \<open>load_dict\<close> parses when one of the two strategies succeeds: the
  mapping when \<^verbatim>\<open>mmap\<close> succeeds, the heap buffer otherwise.
\<close>

definition acquired_region :: "os_state \<Rightarrow> byte list \<Rightarrow> byte list" where
  "acquired_region s fd =
     (if mmap_fails s then fd
      else fd @ replicate (page_padding (page_size s) (length fd)) 0)"


text \<open>
  The string a caller reads at the pointer \<^verbatim>\<open>dd->lexicon + off\<close>: the characters up
  to the first zero. It is a fault when the view holds no zero from there on.
\<close>

definition wcs_at :: "wchar_t list \<Rightarrow> nat \<Rightarrow> fault + wchar_t list" where
  "wcs_at view off =
     (if 0 \<in> set (drop off view) then Inr (takeWhile (\<lambda>c. c \<noteq> 0) (drop off view))
      else Inl OutOfBounds)"

section \<open>A dictionary with the entries AB, ABC and ABCDE\<close>

text \<open>
  A file of 152 bytes: the header, the lexicon length 13, the item count 6, the
  lexicon \<open>AB\<close>, \<open>0\<close>, \<open>ABC\<close>, \<open>0\<close>, \<open>ABCDE\<close>, \<open>0\<close>, and six items. Node 0 is the
  root and nodes 1 to 5 are reached by \<open>A\<close>, \<open>AB\<close>, \<open>ABC\<close>, \<open>ABCD\<close> and \<open>ABCDE\<close>; the
  entries are at the offsets 0, 3 and 7, and the nodes of \<open>A\<close> and \<open>ABCD\<close> are not
  terminal. Every base but the last is \<open>- 64\<close>, so a character leads to the same
  candidate index from every node and only the parent field tells an edge from a
  collision. The sentinel \<^verbatim>\<open>DATRIE_UNUSED\<close> is taken as \<open>- 1\<close>.
\<close>

definition example_header :: "byte list" where
  "example_header = [79, 80, 69, 78, 67, 67, 68, 65, 84, 82, 73, 69]"

definition example_file :: "byte list" where
  "example_file =
     [79, 80, 69, 78, 67, 67, 68, 65, 84, 82, 73, 69,
      13, 0, 0, 0, 0, 0, 0, 0, 6, 0, 0, 0,
      0, 0, 0, 0, 65, 0, 0, 0, 66, 0, 0, 0,
      0, 0, 0, 0, 65, 0, 0, 0, 66, 0, 0, 0,
      67, 0, 0, 0, 0, 0, 0, 0, 65, 0, 0, 0,
      66, 0, 0, 0, 67, 0, 0, 0, 68, 0, 0, 0,
      69, 0, 0, 0, 0, 0, 0, 0, 192, 255, 255, 255,
      255, 255, 255, 255, 255, 255, 255, 255, 192, 255, 255, 255,
      0, 0, 0, 0, 255, 255, 255, 255, 192, 255, 255, 255,
      1, 0, 0, 0, 0, 0, 0, 0, 192, 255, 255, 255,
      2, 0, 0, 0, 3, 0, 0, 0, 192, 255, 255, 255,
      3, 0, 0, 0, 255, 255, 255, 255, 255, 255, 255, 255,
      4, 0, 0, 0, 7, 0, 0, 0]"

text \<open>
  The handle that loading this file into a heap buffer gives: the region is the file,
  and both views end where the file ends.
\<close>

definition example_dict :: datrie_dictionary where
  "example_dict =
     \<lparr>dat = [\<lparr>base = - 64, parent = - 1, word = - 1\<rparr>,
             \<lparr>base = - 64, parent = 0, word = - 1\<rparr>,
             \<lparr>base = - 64, parent = 1, word = 0\<rparr>,
             \<lparr>base = - 64, parent = 2, word = 3\<rparr>,
             \<lparr>base = - 64, parent = 3, word = - 1\<rparr>,
             \<lparr>base = - 1, parent = 4, word = 7\<rparr>],
      dat_item_count = 6,
      lexicon = [65, 66, 0, 65, 66, 67, 0, 65, 66, 67, 68, 69, 0,
                 - 64, - 1, - 1, - 64, 0, - 1, - 64, 1, 0, - 64, 2, 3, - 64,
                 3, - 1, - 1, 4, 7],
      lexicon_length = 13,
      dic_memory = Some example_file,
      dic_size = 152,
      dic_memory_type = MEMORY_TYPE_ALLOCATE\<rparr>"

text \<open>The first 40 bytes of the file: its header declares more than it holds.\<close>

definition truncated_file :: "byte list" where
  "truncated_file =
     [79, 80, 69, 78, 67, 67, 68, 65, 84, 82, 73, 69,
      13, 0, 0, 0, 0, 0, 0, 0, 6, 0, 0, 0,
      0, 0, 0, 0, 65, 0, 0, 0, 66, 0, 0, 0,
      0, 0, 0, 0]"

text \<open>Some content of memory that was never written.\<close>

definition garbage :: datrie_dictionary where
  "garbage =
     \<lparr>dat = [], dat_item_count = 12345, lexicon = [], lexicon_length = 678,
      dic_memory = Some [1, 2, 3], dic_size = 9, dic_memory_type = MEMORY_TYPE_OTHER\<rparr>"

definition example_os :: os_state where
  "example_os =
     \<lparr>files = (\<lambda>name. if name = ''dict.ocd'' then Some example_file
                      else if name = ''short.ocd'' then Some truncated_file
                      else if name = ''text.txt'' then
                        Some [104, 101, 108, 108, 111, 32, 119, 111, 114, 108, 100, 33, 10]
                      else None),
      mmap_fails = False,
      malloc_fails = False,
      munmap_fails = False,
      page_size = 4096,
      next_handle = 4096,
      uninitialised = garbage,
      handles = (\<lambda>p. None),
      mapped_regions = 0,
      heap_buffers = 0,
      open_streams = 0\<rparr>"


definition truncated_mapped_dict :: datrie_dictionary where
  "truncated_mapped_dict =
     \<lparr>dat = replicate 334 \<lparr>base = 0, parent = 0, word = 0\<rparr>,
      dat_item_count = 6,
      lexicon = [65, 66, 0] @ replicate 1014 0,
      lexicon_length = 13,
      dic_memory = Some (truncated_file @ replicate 4056 0),
      dic_size = 40,
      dic_memory_type = MEMORY_TYPE_MMAP\<rparr>"

section \<open>The walk through the trie\<close>

lemma valid_transition_in_range:
  "valid_transition dd i k \<Longrightarrow> nat (sint (candidate dd i k)) < dat_item_count dd"
  by (auto simp: valid_transition_def Let_def)

text \<open>One round of the loop of \<open>datrie_match\<close>, on a readable dictionary.\<close>

lemma datrie_match_loop_unfold:
  assumes "readable dd" and "i < length (dat dd)"
  shows "datrie_match_loop unused dd w limit i p =
    (if wchar_at w p \<noteq> 0 \<and> (limit = 0 \<or> p < limit) \<and> base (dat dd ! i) \<noteq> unused \<and>
        valid_transition dd i (wchar_at w p)
     then datrie_match_loop unused dd w limit (nat (sint (candidate dd i (wchar_at w p)))) (Suc p)
     else Inr (p, i))"
  using assms
  by (subst datrie_match_loop.simps)
     (auto simp: readable_def dat_at_def valid_transition_def candidate_def Let_def
        word_sless_alt)

lemma datrie_match_loop_returns:
  assumes "readable dd" and "i < length (dat dd)"
  shows "\<exists>p' i'. datrie_match_loop unused dd w limit i p = Inr (p', i') \<and> p \<le> p'"
  using assms(2)
proof (induction "length w - p" arbitrary: i p rule: less_induct)
  case less
  let ?j = "nat (sint (candidate dd i (wchar_at w p)))"
  note unfold = datrie_match_loop_unfold [OF assms(1) less.prems, of unused w limit p]
  show ?case
  proof (cases "wchar_at w p \<noteq> 0 \<and> (limit = 0 \<or> p < limit) \<and> base (dat dd ! i) \<noteq> unused \<and>
        valid_transition dd i (wchar_at w p)")
    case True
    then have "?j < dat_item_count dd"
      by (simp add: valid_transition_in_range)
    with assms(1) have "?j < length (dat dd)"
      by (simp add: readable_def)
    moreover from True have "length w - Suc p < length w - p"
      by (auto simp: wchar_at_def split: if_splits)
    ultimately obtain p' i' where
      "datrie_match_loop unused dd w limit ?j (Suc p) = Inr (p', i')" "Suc p \<le> p'"
      using less.hyps [of "Suc p" ?j] by blast
    with True unfold show ?thesis by auto
  next
    case False
    with unfold show ?thesis by auto
  qed
qed

lemma may_advance_less_length: "may_advance unused dd w limit n \<Longrightarrow> n < length w"
  by (auto simp: may_advance_def wchar_at_def split: if_splits)

lemma may_advance_limit:
  "may_advance unused dd w limit n \<Longrightarrow> n < limit' \<Longrightarrow> may_advance unused dd w limit' n"
  by (simp add: may_advance_def)

lemma node_after_in_range:
  assumes "readable dd" and "\<forall>n<p. may_advance unused dd w limit n"
  shows "node_after dd w p < length (dat dd)"
proof (cases p)
  case 0
  with assms(1) show ?thesis by (simp add: readable_def)
next
  case (Suc n)
  with assms(2) have "valid_transition dd (node_after dd w n) (wchar_at w n)"
    by (simp add: may_advance_def)
  then have "node_after dd w (Suc n) < dat_item_count dd"
    by (simp add: valid_transition_in_range)
  with assms(1) Suc show ?thesis by (simp add: readable_def)
qed

lemma datrie_match_loop_run:
  assumes "readable dd"
    and "node_after dd w p < length (dat dd)"
    and "\<forall>n<p. may_advance unused dd w limit n"
  shows "\<exists>p'. p \<le> p' \<and>
           datrie_match_loop unused dd w limit (node_after dd w p) p
             = Inr (p', node_after dd w p') \<and>
           (\<forall>n<p'. may_advance unused dd w limit n) \<and> \<not> may_advance unused dd w limit p'"
  using assms(2,3)
proof (induction "length w - p" arbitrary: p rule: less_induct)
  case less
  note unfold = datrie_match_loop_unfold [OF assms(1) less.prems(1), of unused w limit p]
  show ?case
  proof (cases "may_advance unused dd w limit p")
    case True
    then have step: "datrie_match_loop unused dd w limit (node_after dd w p) p
        = datrie_match_loop unused dd w limit (node_after dd w (Suc p)) (Suc p)"
      using unfold by (simp add: may_advance_def)
    from True have "valid_transition dd (node_after dd w p) (wchar_at w p)"
      by (simp add: may_advance_def)
    then have "node_after dd w (Suc p) < dat_item_count dd"
      by (simp add: valid_transition_in_range)
    with assms(1) have inb: "node_after dd w (Suc p) < length (dat dd)"
      by (simp add: readable_def)
    from True less.prems(2) have all: "\<forall>n<Suc p. may_advance unused dd w limit n"
      by (auto simp: less_Suc_eq)
    from True have "length w - Suc p < length w - p"
      by (auto dest: may_advance_less_length)
    from less.hyps [OF this inb all] step show ?thesis
      by (auto intro: Suc_leD)
  next
    case False
    then have "datrie_match_loop unused dd w limit (node_after dd w p) p
        = Inr (p, node_after dd w p)"
      using unfold by (auto simp: may_advance_def)
    with False less.prems(2) show ?thesis by auto
  qed
qed

lemma datrie_match_run:
  assumes "readable dd"
  shows "\<exists>p. datrie_match unused dd w limit = Inr (p, node_after dd w p) \<and>
           (\<forall>n<p. may_advance unused dd w limit n) \<and> \<not> may_advance unused dd w limit p"
proof -
  from assms have "node_after dd w 0 < length (dat dd)"
    by (simp add: readable_def)
  from datrie_match_loop_run [OF assms this, of unused limit] show ?thesis
    by (auto simp: datrie_match_def)
qed


section \<open>The example dictionary, evaluated\<close>

lemma readable_example_dict: "readable example_dict"
  by (simp add: readable_def example_dict_def)

lemmas example_eval =
  datrie_match_def datrie_match_loop.simps match_longest_while.simps
  dict_datrie_match_longest_def dict_datrie_get_all_match_lengths_def
  all_match_lengths_loop.simps dat_at_def wchar_at_def encode_char_def to_size_t_def
  word_sless_alt example_dict_def

section \<open>The validity rule\<close>

text \<open>
  The rule in plain integers. When the sum of the base and the character code is
  within the range of \<^verbatim>\<open>int\<close> the candidate index is that sum, and for a node index
  below \<open>2 ^ 63\<close> the mixed comparison of \<open>parent\<close> with \<open>i\<close> is equality of the values.
\<close>

lemma candidate_without_overflow:
  assumes "- (2 ^ 31) \<le> sint (base (dat dd ! i)) + sint k"
    and "sint (base (dat dd ! i)) + sint k < 2 ^ 31"
  shows "sint (candidate dd i k) = sint (base (dat dd ! i)) + sint k"
  using assms
  by (simp add: candidate_def encode_char_def sint_word_ariths signed_take_bit_int_eq_self)

lemma to_size_t_eq_iff:
  assumes "i < 2 ^ 63"
  shows "to_size_t x = i \<longleftrightarrow> sint x = int i"
proof (cases "0 \<le> sint x")
  case True
  moreover have "sint x < 2 ^ 31"
    using sint_lt [of x] by simp
  ultimately have "sint x mod 2 ^ 64 = sint x"
    by simp
  with True show ?thesis
    by (auto simp: to_size_t_def)
next
  case False
  moreover have "- (2 ^ 31) \<le> sint x"
    using sint_ge [of x] by simp
  ultimately have "sint x mod 2 ^ 64 = sint x + 2 ^ 64"
    by (intro int_mod_pos_eq [of _ _ "- 1"]) simp_all
  with \<open>- (2 ^ 31) \<le> sint x\<close> have "2 ^ 63 \<le> to_size_t x"
    by (simp add: to_size_t_def le_nat_iff)
  with assms False show ?thesis by auto
qed

lemma valid_transition_plain:
  assumes "- (2 ^ 31) \<le> sint (base (dat dd ! i)) + sint k"
    and "sint (base (dat dd ! i)) + sint k < 2 ^ 31"
    and "i < 2 ^ 63"
  shows "valid_transition dd i k \<longleftrightarrow>
     (let j = sint (base (dat dd ! i)) + sint k
      in 0 \<le> j \<and> j < int (dat_item_count dd) \<and> sint (parent (dat dd ! nat j)) = int i)"
  by (simp add: valid_transition_def candidate_without_overflow [OF assms(1,2)]
      to_size_t_eq_iff [OF assms(3)] Let_def)

text \<open>
  C1. In a round of the traversal at node \<open>i\<close> and character \<open>k = word[p]\<close> that
  passes the loop condition, the transition is followed if and only if the candidate
  index \<open>j = items[i].base + k\<close> satisfies \<open>0 \<le> j < item_count\<close> and
  \<open>items[j].parent = i\<close>: then the walk goes on from \<open>j\<close> and \<open>p + 1\<close>; a candidate out
  of range or with another parent is rejected, and the walk stops with \<open>(p, i)\<close>.
\<close>

theorem transition_followed_iff_valid:
  assumes "readable dd" and "i < length (dat dd)"
    and "wchar_at w p \<noteq> 0" and "limit = 0 \<or> p < limit" and "base (dat dd ! i) \<noteq> unused"
  shows "(valid_transition dd i (wchar_at w p) \<longrightarrow>
            datrie_match_loop unused dd w limit i p =
            datrie_match_loop unused dd w limit
              (nat (sint (candidate dd i (wchar_at w p)))) (p + 1)) \<and>
         (\<not> valid_transition dd i (wchar_at w p) \<longrightarrow>
            datrie_match_loop unused dd w limit i p = Inr (p, i)) \<and>
         ((\<exists>p' i'. datrie_match_loop unused dd w limit i p = Inr (p', i') \<and> p < p') \<longleftrightarrow>
            valid_transition dd i (wchar_at w p))"
proof -
  let ?j = "nat (sint (candidate dd i (wchar_at w p)))"
  note unfold = datrie_match_loop_unfold [OF assms(1,2), of unused w limit p]
  show ?thesis
  proof (cases "valid_transition dd i (wchar_at w p)")
    case True
    with unfold assms(3-5) have step: "datrie_match_loop unused dd w limit i p =
        datrie_match_loop unused dd w limit ?j (Suc p)"
      by simp
    from True assms(1) have "?j < length (dat dd)"
      using valid_transition_in_range [of dd i "wchar_at w p"] by (simp add: readable_def)
    from datrie_match_loop_returns [OF assms(1) this, of unused w limit "Suc p"]
    obtain p' i' where "datrie_match_loop unused dd w limit ?j (Suc p) = Inr (p', i')"
      and "Suc p \<le> p'"
      by blast
    with step have "\<exists>p' i'. datrie_match_loop unused dd w limit i p = Inr (p', i') \<and> p < p'"
      by auto
    with True step show ?thesis by simp
  next
    case False
    with unfold have "datrie_match_loop unused dd w limit i p = Inr (p, i)"
      by simp
    with False show ?thesis by simp
  qed
qed

text \<open>
  In the example, the character \<open>B\<close> at the root gives the candidate 2, which is in
  range but has parent 1; the character \<open>Z\<close> gives the candidate 26, out of range;
  the character \<open>A\<close> gives the candidate 1, whose parent is the root.
\<close>

theorem transition_followed_iff_valid_witness:
  "readable example_dict \<and>
   \<not> valid_transition example_dict 0 66 \<and>
   datrie_match_loop (- 1) example_dict [66] 0 0 0 = Inr (0, 0) \<and>
   \<not> valid_transition example_dict 0 90 \<and>
   datrie_match_loop (- 1) example_dict [90] 0 0 0 = Inr (0, 0) \<and>
   valid_transition example_dict 0 65 \<and>
   (\<exists>p' i'. datrie_match_loop (- 1) example_dict [65] 0 0 0 = Inr (p', i') \<and> 0 < p')"
proof -
  note r = readable_example_dict
  have i: "0 < length (dat example_dict)"
    by (simp add: example_dict_def)
  have b: "base (dat example_dict ! 0) \<noteq> - 1"
    by (simp add: example_dict_def)
  have v: "\<not> valid_transition example_dict 0 66" "\<not> valid_transition example_dict 0 90"
    "valid_transition example_dict 0 65"
    by (simp_all add: valid_transition_def candidate_def encode_char_def example_dict_def
        to_size_t_def Let_def)
  have "datrie_match_loop (- 1) example_dict [66] 0 0 0 = Inr (0, 0)"
    using transition_followed_iff_valid [OF r i _ _ b, of "[66]" 0 0] v
    by (simp add: wchar_at_def)
  moreover have "datrie_match_loop (- 1) example_dict [90] 0 0 0 = Inr (0, 0)"
    using transition_followed_iff_valid [OF r i _ _ b, of "[90]" 0 0] v
    by (simp add: wchar_at_def)
  moreover have "\<exists>p' i'. datrie_match_loop (- 1) example_dict [65] 0 0 0 = Inr (p', i') \<and> 0 < p'"
    using transition_followed_iff_valid [OF r i _ _ b, of "[65]" 0 0, THEN conjunct2,
        THEN conjunct2] v
    by (simp add: wchar_at_def)
  ultimately show ?thesis using r v by simp
qed

section \<open>The bounded step match\<close>

text \<open>
  C3. On a readable dictionary the bounded step match returns \<open>(p, i)\<close> where every
  position before \<open>p\<close> passed the loop condition (a character is present, the limit
  is 0 or not yet reached, the base of the node is not the sentinel) and had a valid
  transition, position \<open>p\<close> does not, and \<open>i\<close> is the node reached over the first \<open>p\<close>
  characters; \<open>p\<close> is at most the length of the input, and at most a non-zero limit.
\<close>

theorem datrie_match_advances_exactly_while:
  assumes "readable dd"
  shows "\<exists>p. datrie_match unused dd w limit = Inr (p, node_after dd w p) \<and>
           (\<forall>n<p. may_advance unused dd w limit n) \<and>
           \<not> may_advance unused dd w limit p \<and>
           p \<le> length w \<and> (limit = 0 \<or> p \<le> limit)"
proof -
  from datrie_match_run [OF assms, of unused w limit] obtain p where
    res: "datrie_match unused dd w limit = Inr (p, node_after dd w p)" and
    adv: "\<forall>n<p. may_advance unused dd w limit n" and
    stop: "\<not> may_advance unused dd w limit p"
    by blast
  have "p \<le> length w"
  proof (cases p)
    case (Suc n)
    with adv have "may_advance unused dd w limit n" by simp
    with Suc show ?thesis by (auto dest: may_advance_less_length)
  qed simp
  moreover have "limit = 0 \<or> p \<le> limit"
  proof (cases p)
    case (Suc n)
    with adv have "may_advance unused dd w limit n" by simp
    with Suc show ?thesis by (auto simp: may_advance_def)
  qed simp
  ultimately show ?thesis using res adv stop by blast
qed

text \<open>
  In the example, \<open>ABCX\<close> with limit 2 stops at the limit, in node 2; with no limit
  it stops at the invalid transition by \<open>X\<close>, in node 3 and without advancing.
\<close>

theorem datrie_match_advances_exactly_while_witness:
  "readable example_dict \<and>
   datrie_match (- 1) example_dict [65, 66, 67, 88] 2 = Inr (2, 2) \<and>
   may_advance (- 1) example_dict [65, 66, 67, 88] 2 1 \<and>
   \<not> may_advance (- 1) example_dict [65, 66, 67, 88] 2 2 \<and>
   datrie_match (- 1) example_dict [65, 66, 67, 88] 0 = Inr (3, 3) \<and>
   may_advance (- 1) example_dict [65, 66, 67, 88] 0 2 \<and>
   \<not> may_advance (- 1) example_dict [65, 66, 67, 88] 0 3"
proof -
  note r = readable_example_dict
  let ?w = "[65, 66, 67, 88] :: wchar_t list"
  have a: "datrie_match (- 1) example_dict ?w 2 = Inr (2, 2) \<and>
      may_advance (- 1) example_dict ?w 2 1 \<and> \<not> may_advance (- 1) example_dict ?w 2 2"
  proof -
    from datrie_match_advances_exactly_while [OF r, of "- 1" ?w 2]
    obtain p where res: "datrie_match (- 1) example_dict ?w 2
        = Inr (p, node_after example_dict ?w p)"
      and adv: "\<forall>n<p. may_advance (- 1) example_dict ?w 2 n"
      and stop: "\<not> may_advance (- 1) example_dict ?w 2 p"
      by blast
    have e: "datrie_match (- 1) example_dict ?w 2 = Inr (2, 2)"
      by (simp add: example_eval)
    with res have "p = 2" by simp
    with adv stop e show ?thesis by simp
  qed
  have b: "datrie_match (- 1) example_dict ?w 0 = Inr (3, 3) \<and>
      may_advance (- 1) example_dict ?w 0 2 \<and> \<not> may_advance (- 1) example_dict ?w 0 3"
  proof -
    from datrie_match_advances_exactly_while [OF r, of "- 1" ?w 0]
    obtain p where res: "datrie_match (- 1) example_dict ?w 0
        = Inr (p, node_after example_dict ?w p)"
      and adv: "\<forall>n<p. may_advance (- 1) example_dict ?w 0 n"
      and stop: "\<not> may_advance (- 1) example_dict ?w 0 p"
      by blast
    have e: "datrie_match (- 1) example_dict ?w 0 = Inr (3, 3)"
      by (simp add: example_eval)
    with res have "p = 3" by simp
    with adv stop e show ?thesis by simp
  qed
  from r a b show ?thesis by simp
qed

section \<open>Termination of the backtracking loop\<close>

lemma match_longest_while_fuel_enough:
  "pos - 1 \<le> fuel \<Longrightarrow>
     match_longest_while_fuel fuel unused dd w pos item
       = Some (match_longest_while unused dd w pos item)"
proof (induction fuel arbitrary: pos item)
  case 0
  then have "\<not> 1 < pos" by simp
  then show ?case
    by (subst match_longest_while_fuel.simps, subst match_longest_while.simps)
       (simp split: sum.splits)
next
  case (Suc fuel)
  have "match_longest_while_fuel fuel unused dd w pos' item'
      = Some (match_longest_while unused dd w pos' item')"
    if "1 < pos" and "datrie_match unused dd w (pos - 1) = Inr (pos', item')" for pos' item'
  proof -
    from that have "pos' \<le> pos - 1"
      by (auto dest: datrie_match_le_limit)
    with Suc.prems have "pos' - 1 \<le> fuel" by simp
    then show ?thesis by (rule Suc.IH)
  qed
  then show ?case
    by (subst match_longest_while_fuel.simps, subst match_longest_while.simps)
       (simp split: sum.splits prod.splits)
qed

text \<open>
  C9. A bounded step match with a positive limit returns a position that is at most
  the limit; so a retry with limit \<open>pos - 1\<close>, which is positive under the loop guard
  \<open>1 < pos\<close>, returns a smaller position, and the loop ends with a result after at
  most \<open>pos\<close> runs of its body, for every dictionary and every input.
\<close>

theorem backtracking_loop_terminates:
  "(0 < limit \<and> datrie_match unused dd w limit = Inr (p, i) \<longrightarrow> p \<le> limit) \<and>
   (1 < pos \<and> datrie_match unused dd w (pos - 1) = Inr (pos', item') \<longrightarrow>
      0 < pos - 1 \<and> pos' < pos) \<and>
   match_longest_while_fuel pos unused dd w pos item
     = Some (match_longest_while unused dd w pos item)"
proof -
  have "p \<le> limit" if "0 < limit" "datrie_match unused dd w limit = Inr (p, i)"
    using that by (auto dest: datrie_match_le_limit)
  moreover have "0 < pos - 1 \<and> pos' < pos"
    if "1 < pos" "datrie_match unused dd w (pos - 1) = Inr (pos', item')"
  proof -
    from that have "pos' \<le> pos - 1"
      by (auto dest: datrie_match_le_limit)
    with that(1) show ?thesis by simp
  qed
  moreover have "match_longest_while_fuel pos unused dd w pos item
      = Some (match_longest_while unused dd w pos item)"
    by (rule match_longest_while_fuel_enough) simp
  ultimately show ?thesis by blast
qed

text \<open>
  In the example, the walk over \<open>ABCD\<close> ends at position 4 in the node of \<open>ABCD\<close>,
  which is not terminal; one retry with limit 3 ends the loop in the node of \<open>ABC\<close>.
\<close>

theorem backtracking_loop_terminates_witness:
  "datrie_match (- 1) example_dict [65, 66, 67, 68] 3 = Inr (3, 3) \<and>
   (0::nat) < 3 \<and> (3::nat) \<le> 3 \<and> (1::nat) < 4 \<and> (0::nat) < 4 - 1 \<and> (3::nat) < 4 \<and>
   match_longest_while_fuel 4 (- 1) example_dict [65, 66, 67, 68] 4 4 = Some (Inr (3, 3))"
proof -
  have e: "datrie_match (- 1) example_dict [65, 66, 67, 68] 3 = Inr (3, 3)"
    by (simp add: example_eval)
  have "match_longest_while (- 1) example_dict [65, 66, 67, 68] 4 4 = Inr (3, 3)"
    by (simp add: example_eval)
  with backtracking_loop_terminates [of 3 "- 1" example_dict "[65, 66, 67, 68]" 3 3 4 3 3 4] e
  show ?thesis by simp
qed

section \<open>Longest match\<close>

lemma datrie_match_shorter:
  assumes "readable dd" and "\<forall>n<pos. may_advance unused dd w len n" and "1 < pos"
  shows "datrie_match unused dd w (pos - 1) = Inr (pos - 1, node_after dd w (pos - 1))"
proof -
  from datrie_match_run [OF assms(1), of unused w "pos - 1"] obtain p where
    res: "datrie_match unused dd w (pos - 1) = Inr (p, node_after dd w p)" and
    adv: "\<forall>n<p. may_advance unused dd w (pos - 1) n" and
    stop: "\<not> may_advance unused dd w (pos - 1) p"
    by blast
  have "p \<le> pos - 1"
  proof (rule ccontr)
    assume "\<not> p \<le> pos - 1"
    then have "pos - 1 < p" by simp
    with adv have "may_advance unused dd w (pos - 1) (pos - 1)" by blast
    with assms(3) show False by (simp add: may_advance_def)
  qed
  moreover have "\<not> p < pos - 1"
  proof
    assume "p < pos - 1"
    moreover from this assms(2) have "may_advance unused dd w len p" by simp
    ultimately have "may_advance unused dd w (pos - 1) p"
      by (rule may_advance_limit [rotated])
    with stop show False by contradiction
  qed
  ultimately have "p = pos - 1" by simp
  with res show ?thesis by simp
qed

lemma match_longest_while_run:
  assumes "readable dd" and "\<forall>n<pos. may_advance unused dd w len n"
  shows "\<exists>q\<le>pos. match_longest_while unused dd w pos (node_after dd w pos)
             = Inr (q, node_after dd w q) \<and>
           (if q = 0 \<or> word (dat dd ! node_after dd w q) = - 1 then None
            else Some (sint (word (dat dd ! node_after dd w q)))) = longest_terminal dd w pos"
  using assms(2)
proof (induction pos)
  case 0
  from assms(1) have "dat_at dd 0 = Inr (dat dd ! 0)"
    by (simp add: dat_at_def readable_def)
  then have "match_longest_while unused dd w 0 (node_after dd w 0) = Inr (0, node_after dd w 0)"
    by (subst match_longest_while.simps) simp
  then show ?case by simp
next
  case (Suc pos)
  let ?it = "dat dd ! node_after dd w (Suc pos)"
  from node_after_in_range [OF assms(1) Suc.prems]
  have rd: "dat_at dd (node_after dd w (Suc pos)) = Inr ?it"
    by (simp add: dat_at_def)
  show ?case
  proof (cases "word ?it = - 1 \<and> 1 < Suc pos")
    case True
    from datrie_match_shorter [OF assms(1) Suc.prems] True
    have "datrie_match unused dd w pos = Inr (pos, node_after dd w pos)" by simp
    with True rd have "match_longest_while unused dd w (Suc pos) (node_after dd w (Suc pos))
        = match_longest_while unused dd w pos (node_after dd w pos)"
      by (subst match_longest_while.simps) simp
    moreover from Suc.prems have "\<forall>n<pos. may_advance unused dd w len n" by simp
    from Suc.IH [OF this] obtain q where "q \<le> pos"
      "match_longest_while unused dd w pos (node_after dd w pos) = Inr (q, node_after dd w q)"
      "(if q = 0 \<or> word (dat dd ! node_after dd w q) = - 1 then None
        else Some (sint (word (dat dd ! node_after dd w q)))) = longest_terminal dd w pos"
      by blast
    ultimately show ?thesis using True by (intro exI [of _ q]) simp
  next
    case False
    with rd have "match_longest_while unused dd w (Suc pos) (node_after dd w (Suc pos))
        = Inr (Suc pos, node_after dd w (Suc pos))"
      by (subst match_longest_while.simps) auto
    moreover have "(if Suc pos = 0 \<or> word ?it = - 1 then None else Some (sint (word ?it)))
        = longest_terminal dd w (Suc pos)"
      using False by (cases pos) auto
    ultimately show ?thesis by (intro exI [of _ "Suc pos"]) simp
  qed
qed

lemma dict_datrie_match_longest_run:
  assumes "readable dd"
  shows "\<exists>p0 q. datrie_match unused dd w len = Inr (p0, node_after dd w p0) \<and>
           match_longest_while unused dd w p0 (node_after dd w p0)
             = Inr (q, node_after dd w q) \<and>
           q \<le> p0 \<and> node_after dd w q < length (dat dd) \<and>
           dict_datrie_match_longest unused dd w len
             = Inr (if q = 0 \<or> word (dat dd ! node_after dd w q) = - 1 then None
                    else Some (sint (word (dat dd ! node_after dd w q)))) \<and>
           dict_datrie_match_longest unused dd w len = Inr (longest_terminal dd w p0)"
proof -
  from datrie_match_run [OF assms, of unused w len] obtain p0 where
    res: "datrie_match unused dd w len = Inr (p0, node_after dd w p0)" and
    adv: "\<forall>n<p0. may_advance unused dd w len n"
    by blast
  from match_longest_while_run [OF assms adv] obtain q where "q \<le> p0" and
    wh: "match_longest_while unused dd w p0 (node_after dd w p0) = Inr (q, node_after dd w q)" and
    fin: "(if q = 0 \<or> word (dat dd ! node_after dd w q) = - 1 then None
        else Some (sint (word (dat dd ! node_after dd w q)))) = longest_terminal dd w p0"
    by blast
  from adv \<open>q \<le> p0\<close> have "\<forall>n<q. may_advance unused dd w len n" by simp
  from node_after_in_range [OF assms this]
  have inb: "node_after dd w q < length (dat dd)" .
  then have "dat_at dd (node_after dd w q) = Inr (dat dd ! node_after dd w q)"
    by (simp add: dat_at_def)
  with res wh have "dict_datrie_match_longest unused dd w len
      = Inr (if q = 0 \<or> word (dat dd ! node_after dd w q) = - 1 then None
             else Some (sint (word (dat dd ! node_after dd w q))))"
    by (auto simp: dict_datrie_match_longest_def)
  with res wh fin \<open>q \<le> p0\<close> inb show ?thesis by auto
qed

text \<open>
  What \<open>longest_terminal\<close> computes: the entry of the greatest length in \<open>1 .. p\<close>
  whose node is terminal, and nothing when there is none.
\<close>

lemma longest_terminal_greatest:
  assumes "0 < q" and "q \<le> p" and "word (dat dd ! node_after dd w q) \<noteq> - 1"
    and "\<forall>q'. q < q' \<and> q' \<le> p \<longrightarrow> word (dat dd ! node_after dd w q') = - 1"
  shows "longest_terminal dd w p = Some (sint (word (dat dd ! node_after dd w q)))"
  using assms(2,4)
proof (induction p)
  case 0
  with assms(1) show ?case by simp
next
  case (Suc p)
  show ?case
  proof (cases "q = Suc p")
    case True
    with assms(3) show ?thesis
      by (simp del: node_after.simps)
  next
    case False
    with Suc.prems(1) have "q \<le> p" by simp
    moreover from Suc.prems(2) False \<open>q \<le> p\<close>
    have "word (dat dd ! node_after dd w (Suc p)) = - 1"
      by (simp del: node_after.simps)
    moreover from Suc.prems(2)
    have "\<forall>q'. q < q' \<and> q' \<le> p \<longrightarrow> word (dat dd ! node_after dd w q') = - 1" by simp
    ultimately show ?thesis
      using Suc.IH by (simp del: node_after.simps)
  qed
qed

lemma longest_terminal_none:
  assumes "\<forall>q'. 0 < q' \<and> q' \<le> p \<longrightarrow> word (dat dd ! node_after dd w q') = - 1"
  shows "longest_terminal dd w p = None"
  using assms by (induction p) (simp_all del: node_after.simps)

text \<open>
  C2. On a readable dictionary, longest match runs the bounded step match with the
  limit \<open>len\<close> and then the loop from its result \<open>(p0, node)\<close>: while the node is not
  terminal (its word is \<open>- 1\<close>) and \<open>1 < pos\<close>, the bounded step match is run again from
  the root with limit \<open>pos - 1\<close>. When the loop ends with \<open>(q, node)\<close>, the result is
  \<^verbatim>\<open>NULL\<close> if \<open>q = 0\<close> or the node is not terminal, and the pointer at the offset
  \<open>word\<close> of the node into the lexicon otherwise; it is a result in both cases, never a
  fault. That result is the entry of the longest prefix of one to \<open>p0\<close> characters whose
  node is terminal. In the example dictionary \<open>ABCD\<close> gives the entry \<open>ABC\<close>, \<open>ABX\<close> gives
  the entry \<open>AB\<close>, and \<open>XAB\<close> gives \<^verbatim>\<open>NULL\<close>.
\<close>

theorem longest_match_shrinks_to_terminal:
  assumes "readable dd"
  shows "(\<exists>p0 q. datrie_match unused dd w len = Inr (p0, node_after dd w p0) \<and>
            match_longest_while unused dd w p0 (node_after dd w p0)
              = Inr (q, node_after dd w q) \<and>
            dict_datrie_match_longest unused dd w len
              = Inr (if q = 0 \<or> word (dat dd ! node_after dd w q) = - 1 then None
                     else Some (sint (word (dat dd ! node_after dd w q)))) \<and>
            dict_datrie_match_longest unused dd w len = Inr (longest_terminal dd w p0)) \<and>
         (item < length (dat dd) \<longrightarrow>
            match_longest_while unused dd w pos item =
              (if word (dat dd ! item) = - 1 \<and> 1 < pos then
                 (case datrie_match unused dd w (pos - 1) of
                    Inl f \<Rightarrow> Inl f
                  | Inr (pos', item') \<Rightarrow> match_longest_while unused dd w pos' item')
               else Inr (pos, item))) \<and>
         dict_datrie_match_longest (- 1) example_dict [65, 66, 67, 68] 4 = Inr (Some 3) \<and>
         wcs_at (lexicon example_dict) 3 = Inr [65, 66, 67] \<and>
         dict_datrie_match_longest (- 1) example_dict [65, 66, 88] 3 = Inr (Some 0) \<and>
         wcs_at (lexicon example_dict) 0 = Inr [65, 66] \<and>
         dict_datrie_match_longest (- 1) example_dict [88, 65, 66] 3 = Inr None"
proof -
  from dict_datrie_match_longest_run [OF assms, of unused w len]
  have "\<exists>p0 q. datrie_match unused dd w len = Inr (p0, node_after dd w p0) \<and>
      match_longest_while unused dd w p0 (node_after dd w p0) = Inr (q, node_after dd w q) \<and>
      dict_datrie_match_longest unused dd w len
        = Inr (if q = 0 \<or> word (dat dd ! node_after dd w q) = - 1 then None
               else Some (sint (word (dat dd ! node_after dd w q)))) \<and>
      dict_datrie_match_longest unused dd w len = Inr (longest_terminal dd w p0)"
    by blast
  moreover have "match_longest_while unused dd w pos item =
      (if word (dat dd ! item) = - 1 \<and> 1 < pos then
         (case datrie_match unused dd w (pos - 1) of
            Inl f \<Rightarrow> Inl f
          | Inr (pos', item') \<Rightarrow> match_longest_while unused dd w pos' item')
       else Inr (pos, item))"
    if "item < length (dat dd)"
    using that by (subst match_longest_while.simps) (simp add: dat_at_def)
  moreover have "dict_datrie_match_longest (- 1) example_dict [65, 66, 67, 68] 4 = Inr (Some 3)"
    by (simp add: example_eval)
  moreover have "wcs_at (lexicon example_dict) 3 = Inr [65, 66, 67]"
    by (simp add: wcs_at_def example_dict_def)
  moreover have "dict_datrie_match_longest (- 1) example_dict [65, 66, 88] 3 = Inr (Some 0)"
    by (simp add: example_eval)
  moreover have "wcs_at (lexicon example_dict) 0 = Inr [65, 66]"
    by (simp add: wcs_at_def example_dict_def)
  moreover have "dict_datrie_match_longest (- 1) example_dict [88, 65, 66] 3 = Inr None"
    by (simp add: example_eval)
  ultimately show ?thesis by blast
qed

text \<open>
  In the example, the walk over \<open>ABCD\<close> consumes four characters and ends in node 4,
  which is not terminal; the loop shrinks the window to three characters and ends in
  node 3, whose entry is at offset 3.
\<close>

theorem longest_match_shrinks_to_terminal_witness:
  "readable example_dict \<and>
   datrie_match (- 1) example_dict [65, 66, 67, 68] 4 = Inr (4, 4) \<and>
   match_longest_while (- 1) example_dict [65, 66, 67, 68] 4 4 = Inr (3, 3) \<and>
   dict_datrie_match_longest (- 1) example_dict [65, 66, 67, 68] 4 = Inr (Some 3) \<and>
   longest_terminal example_dict [65, 66, 67, 68] 4 = Some 3"
proof -
  note r = readable_example_dict
  let ?w = "[65, 66, 67, 68] :: wchar_t list"
  from longest_match_shrinks_to_terminal [OF r, of "- 1" ?w 4, THEN conjunct1]
  obtain p0 q where
    m: "datrie_match (- 1) example_dict ?w 4 = Inr (p0, node_after example_dict ?w p0)" and
    l: "match_longest_while (- 1) example_dict ?w p0 (node_after example_dict ?w p0)
        = Inr (q, node_after example_dict ?w q)" and
    t: "dict_datrie_match_longest (- 1) example_dict ?w 4
        = Inr (longest_terminal example_dict ?w p0)"
    by blast
  have e: "datrie_match (- 1) example_dict ?w 4 = Inr (4, 4)"
    by (simp add: example_eval)
  with m have p0: "p0 = 4" by simp
  have e': "match_longest_while (- 1) example_dict ?w 4 4 = Inr (3, 3)"
    by (simp add: example_eval)
  have e'': "dict_datrie_match_longest (- 1) example_dict ?w 4 = Inr (Some 3)"
    by (simp add: example_eval)
  with t p0 have "longest_terminal example_dict ?w 4 = Some 3" by simp
  with r e e' e'' show ?thesis by simp
qed

section \<open>All match lengths\<close>

lemma all_match_lengths_loop_unfold:
  assumes "readable dd" and "i < length (dat dd)"
  shows "all_match_lengths_loop unused dd w buf rscnt i p =
    (if wchar_at w p \<noteq> 0 \<and> base (dat dd ! i) \<noteq> unused \<and> valid_transition dd i (wchar_at w p)
     then let j = nat (sint (candidate dd i (wchar_at w p))) in
       if word (dat dd ! j) \<noteq> - 1 then
         (if rscnt < length buf
          then all_match_lengths_loop unused dd w (buf[rscnt := Suc p]) (Suc rscnt) j (Suc p)
          else Inl OutOfBounds)
       else all_match_lengths_loop unused dd w buf rscnt j (Suc p)
     else Inr (rscnt, buf))"
  using assms
  by (subst all_match_lengths_loop.simps)
     (auto simp: readable_def dat_at_def valid_transition_def candidate_def Let_def
        word_sless_alt)

lemma terminal_lengths_step:
  assumes "p < P"
  shows "terminal_lengths dd w p P =
      (if word (dat dd ! node_after dd w (Suc p)) \<noteq> - 1 then [Suc p] else [])
        @ terminal_lengths dd w (Suc p) P"
proof -
  from assms have "[Suc p..<Suc P] = Suc p # [Suc (Suc p)..<Suc P]"
    by (simp add: upt_conv_Cons del: upt_Suc)
  then show ?thesis
    by (simp add: terminal_lengths_def del: upt_Suc node_after.simps)
qed

lemma all_match_lengths_loop_run:
  assumes "readable dd"
    and "\<forall>n<P. may_advance unused dd w 0 n" and "\<not> may_advance unused dd w 0 P"
    and "p \<le> P" and "rscnt \<le> length buf"
  shows "all_match_lengths_loop unused dd w buf rscnt (node_after dd w p) p =
     (let ls = terminal_lengths dd w p P in
      if rscnt + length ls \<le> length buf
      then Inr (rscnt + length ls, take rscnt buf @ ls @ drop (rscnt + length ls) buf)
      else Inl OutOfBounds)"
  using assms(4,5)
proof (induction "P - p" arbitrary: p rscnt buf rule: less_induct)
  case less
  from less.prems(1) assms(2) have "\<forall>n<p. may_advance unused dd w 0 n" by simp
  from node_after_in_range [OF assms(1) this]
  have inb: "node_after dd w p < length (dat dd)" .
  note unfold = all_match_lengths_loop_unfold [OF assms(1) inb, of unused w buf rscnt p]
  show ?case
  proof (cases "p = P")
    case True
    with assms(3) have "all_match_lengths_loop unused dd w buf rscnt (node_after dd w p) p
        = Inr (rscnt, buf)"
      using unfold by (auto simp: may_advance_def)
    with True less.prems(2) show ?thesis
      by (simp add: terminal_lengths_def)
  next
    case False
    with less.prems(1) have "p < P" by simp
    with assms(2) have adv: "may_advance unused dd w 0 p" by simp
    note tl = terminal_lengths_step [OF \<open>p < P\<close>, of dd w]
    from \<open>p < P\<close> have m: "P - Suc p < P - p" and le: "Suc p \<le> P" by simp_all
    show ?thesis
    proof (cases "word (dat dd ! node_after dd w (Suc p)) \<noteq> - 1")
      case inner: False
      with adv unfold have "all_match_lengths_loop unused dd w buf rscnt (node_after dd w p) p
          = all_match_lengths_loop unused dd w buf rscnt (node_after dd w (Suc p)) (Suc p)"
        by (simp add: may_advance_def Let_def)
      with less.hyps [OF m le less.prems(2)] inner tl show ?thesis by simp
    next
      case final: True
      show ?thesis
      proof (cases "rscnt < length buf")
        case nospace: False
        with adv unfold final
        have "all_match_lengths_loop unused dd w buf rscnt (node_after dd w p) p
            = Inl OutOfBounds"
          by (simp add: may_advance_def Let_def)
        with nospace final tl show ?thesis by (simp add: Let_def)
      next
        case space: True
        with adv unfold final
        have "all_match_lengths_loop unused dd w buf rscnt (node_after dd w p) p
            = all_match_lengths_loop unused dd w (buf[rscnt := Suc p]) (Suc rscnt)
                (node_after dd w (Suc p)) (Suc p)"
          by (simp add: may_advance_def Let_def)
        moreover from space have "Suc rscnt \<le> length (buf[rscnt := Suc p])" by simp
        note less.hyps [OF m le this]
        moreover have "take (Suc rscnt) (buf[rscnt := Suc p]) = take rscnt buf @ [Suc p]"
          using space by (simp add: take_Suc_conv_app_nth)
        ultimately show ?thesis using final tl space
          by (simp add: Let_def)
      qed
    qed
  qed
qed

text \<open>
  C4. On a readable dictionary the enumeration is one walk from the root with no
  limit: it stops at the position \<open>P\<close> where the unlimited step match stops (the end
  of the input, a node whose base is the sentinel, or an invalid transition). It
  writes, in order and from the start of the array, the lengths \<open>q\<close> in \<open>1 .. P\<close>
  whose node is terminal, and returns their number; the rest of the array is
  unchanged. The lengths written are strictly increasing, and each is the length of
  a prefix that leads from the root to a terminal node. When the caller's array is
  shorter than the list of these lengths, the write past its end is a fault.
\<close>

theorem all_match_lengths_are_terminal_prefixes:
  assumes "readable dd"
  shows "\<exists>P. datrie_match unused dd w 0 = Inr (P, node_after dd w P) \<and>
           (\<forall>n<P. may_advance unused dd w 0 n) \<and>
           \<not> may_advance unused dd w 0 P \<and>
           dict_datrie_get_all_match_lengths unused dd w buf =
             (if length (terminal_lengths dd w 0 P) \<le> length buf
              then Inr (length (terminal_lengths dd w 0 P),
                        terminal_lengths dd w 0 P
                          @ drop (length (terminal_lengths dd w 0 P)) buf)
              else Inl OutOfBounds) \<and>
           sorted_wrt (<) (terminal_lengths dd w 0 P) \<and>
           (\<forall>q. q \<in> set (terminal_lengths dd w 0 P) \<longleftrightarrow>
                0 < q \<and> q \<le> P \<and> word (dat dd ! node_after dd w q) \<noteq> - 1)"
proof -
  from datrie_match_run [OF assms, of unused w 0] obtain P where
    res: "datrie_match unused dd w 0 = Inr (P, node_after dd w P)" and
    adv: "\<forall>n<P. may_advance unused dd w 0 n" and
    stop: "\<not> may_advance unused dd w 0 P"
    by blast
  from all_match_lengths_loop_run [OF assms adv stop, of 0 0 buf]
  have "dict_datrie_get_all_match_lengths unused dd w buf =
      (if length (terminal_lengths dd w 0 P) \<le> length buf
       then Inr (length (terminal_lengths dd w 0 P),
                 terminal_lengths dd w 0 P @ drop (length (terminal_lengths dd w 0 P)) buf)
       else Inl OutOfBounds)"
    by (simp add: dict_datrie_get_all_match_lengths_def Let_def)
  moreover have "sorted_wrt (<) (terminal_lengths dd w 0 P)"
    unfolding terminal_lengths_def by (intro sorted_wrt_filter sorted_wrt_upt)
  moreover have "\<forall>q. q \<in> set (terminal_lengths dd w 0 P) \<longleftrightarrow>
      0 < q \<and> q \<le> P \<and> word (dat dd ! node_after dd w q) \<noteq> - 1"
    by (auto simp: terminal_lengths_def simp del: node_after.simps)
  ultimately show ?thesis using res adv stop by blast
qed

text \<open>
  In the example, the walk over \<open>ABCDEF\<close> stops after five characters, in the node of
  \<open>ABCDE\<close> whose base is the sentinel, and writes the lengths 2, 3 and 5; with an
  array of two elements the third write is a fault.
\<close>

theorem all_match_lengths_are_terminal_prefixes_witness:
  "readable example_dict \<and>
   datrie_match (- 1) example_dict [65, 66, 67, 68, 69, 70] 0 = Inr (5, 5) \<and>
   dict_datrie_get_all_match_lengths (- 1) example_dict [65, 66, 67, 68, 69, 70]
     [0, 0, 0, 0, 0, 0] = Inr (3, [2, 3, 5, 0, 0, 0]) \<and>
   terminal_lengths example_dict [65, 66, 67, 68, 69, 70] 0 5 = [2, 3, 5] \<and>
   dict_datrie_get_all_match_lengths (- 1) example_dict [65, 66, 67, 68, 69, 70] [0, 0]
     = Inl OutOfBounds"
proof -
  note r = readable_example_dict
  let ?w = "[65, 66, 67, 68, 69, 70] :: wchar_t list"
  let ?buf = "[0, 0, 0, 0, 0, 0] :: nat list"
  from all_match_lengths_are_terminal_prefixes [OF r, of "- 1" ?w ?buf]
  obtain P where
    m: "datrie_match (- 1) example_dict ?w 0 = Inr (P, node_after example_dict ?w P)" and
    g: "dict_datrie_get_all_match_lengths (- 1) example_dict ?w ?buf =
      (if length (terminal_lengths example_dict ?w 0 P) \<le> length ?buf
       then Inr (length (terminal_lengths example_dict ?w 0 P),
                 terminal_lengths example_dict ?w 0 P
                   @ drop (length (terminal_lengths example_dict ?w 0 P)) ?buf)
       else Inl OutOfBounds)"
    by blast
  have e: "datrie_match (- 1) example_dict ?w 0 = Inr (5, 5)"
    by (simp add: example_eval)
  with m have P: "P = 5" by simp
  have e': "dict_datrie_get_all_match_lengths (- 1) example_dict ?w ?buf
      = Inr (3, [2, 3, 5, 0, 0, 0])"
    by (simp add: example_eval)
  have tl: "terminal_lengths example_dict ?w 0 5 = [2, 3, 5]"
  proof -
    let ?ls = "terminal_lengths example_dict ?w 0 5"
    from g e' P have len: "length ?ls = 3"
      and app: "?ls @ drop (length ?ls) ?buf = [2, 3, 5, 0, 0, 0]"
      by (simp_all split: if_splits)
    from app have "?ls @ drop 3 ?buf = [2, 3, 5, 0, 0, 0]"
      by (simp only: len)
    then have "?ls @ [0, 0, 0] = [2, 3, 5] @ [0, 0, 0]"
      by simp
    then show ?thesis by (simp only: append_same_eq)
  qed
  have "dict_datrie_get_all_match_lengths (- 1) example_dict ?w [0, 0] = Inl OutOfBounds"
    by (simp add: example_eval)
  with r e e' tl show ?thesis by simp
qed

section \<open>Loading\<close>

lemma strncmp_within:
  "n \<le> length (takeWhile (\<lambda>c. c \<noteq> 0) s2) \<Longrightarrow> n \<le> length s1 \<Longrightarrow>
     \<exists>c. strncmp s1 s2 n = Inr c \<and> (c = 0 \<longleftrightarrow> take n s1 = take n s2)"
proof (induction n arbitrary: s1 s2)
  case 0
  then show ?case by simp
next
  case (Suc n)
  from Suc.prems(2) obtain c1 r1 where s1: "s1 = c1 # r1"
    by (cases s1) auto
  from Suc.prems(1) obtain c2 r2 where s2: "s2 = c2 # r2" and c2: "c2 \<noteq> 0"
    by (cases s2) (auto split: if_splits)
  show ?case
  proof (cases "c1 = c2")
    case True
    from Suc.prems s1 s2 c2 have "n \<le> length (takeWhile (\<lambda>c. c \<noteq> 0) r2)" "n \<le> length r1"
      by simp_all
    from Suc.IH [OF this] True s1 s2 c2 show ?thesis by simp
  next
    case False
    then have "unat c1 \<noteq> unat c2"
      by (simp add: word_unat_eq_iff)
    then have "int (unat c1) - int (unat c2) \<noteq> 0"
      by arith
    with False s1 s2 show ?thesis by simp
  qed
qed

lemma strncmp_header:
  assumes "strlen hdr \<le> length mem"
  shows "\<exists>c. strncmp mem hdr (strlen hdr) = Inr c \<and>
           (c = 0 \<longleftrightarrow> take (strlen hdr) mem = take (strlen hdr) hdr)"
  using assms by (intro strncmp_within) (simp_all add: strlen_def)

lemma load_dict_parse_mismatch:
  assumes "dic_memory dd = Some mem" and "strncmp mem hdr (strlen hdr) = Inr c" and "c \<noteq> 0"
  shows "load_dict_parse hdr dd = Inr (- 1, dd)"
  using assms by (simp add: load_dict_parse_def)

lemma load_dict_parse_match:
  assumes "dic_memory dd = Some mem" and "strncmp mem hdr (strlen hdr) = Inr 0"
    and "strlen hdr + 16 \<le> length mem"
  shows "load_dict_parse hdr dd =
     Inr (0, dd\<lparr>lexicon_length := le_nat (take 8 (drop (strlen hdr) mem)),
                 dat_item_count := le_nat (take 8 (drop (strlen hdr + 8) mem)),
                 lexicon := wchars_of (drop (strlen hdr + 16) mem),
                 dat := items_of (drop ((strlen hdr + 16 +
                          (le_nat (take 8 (drop (strlen hdr) mem)) * 4) mod 2 ^ 64) mod 2 ^ 64)
                          mem)\<rparr>)"
  using assms by (simp add: load_dict_parse_def read_size_t_def Let_def add.assoc)

lemma strncmp_append:
  "strncmp s1 s2 n = Inr c \<Longrightarrow> strncmp (s1 @ zs) s2 n = Inr c"
  by (induction n arbitrary: s1 s2) (auto simp: Let_def split: list.splits if_splits)

lemma length_acquired_region: "length fd \<le> length (acquired_region s fd)"
  by (simp add: acquired_region_def)

lemma take_acquired_region:
  "n \<le> length fd \<Longrightarrow> take n (acquired_region s fd) = take n fd"
  by (simp add: acquired_region_def)

lemma field_acquired_region:
  "off + 8 \<le> length fd \<Longrightarrow> take 8 (drop off (acquired_region s fd)) = take 8 (drop off fd)"
  by (simp add: acquired_region_def)

lemma load_dict_acquired:
  assumes "\<not> mmap_fails s \<or> \<not> malloc_fails s"
  shows "load_dict hdr s dd (Some fd) =
     (let dd1 = dd\<lparr>dic_size := length fd,
                    dic_memory_type := (if mmap_fails s then MEMORY_TYPE_ALLOCATE
                                        else MEMORY_TYPE_MMAP),
                    dic_memory := Some (acquired_region s fd)\<rparr>;
          s1 = (if mmap_fails s then s\<lparr>heap_buffers := heap_buffers s + 1\<rparr>
                else s\<lparr>mapped_regions := mapped_regions s + 1\<rparr>)
      in case load_dict_parse hdr dd1 of
           Inl f \<Rightarrow> Inl f
         | Inr (rc, dd2) \<Rightarrow> Inr (rc, dd2, s1))"
  using assms
  by (auto simp: load_dict_def load_mmap_def load_allocate_def Let_def acquired_region_def
      load_dict_parse_def split: sum.splits prod.splits)

text \<open>
  C6. Once the region is acquired and the file holds at least as many bytes as the
  header string, \<open>load_dict\<close> returns \<open>- 1\<close> if and only if the file does not begin
  with the header string. When it does, and the two size fields that follow the
  header lie in the file, \<open>load_dict\<close> returns 0: the lexicon length and the item
  count are the two fields read at the offsets \<open>strlen hdr\<close> and \<open>strlen hdr + 8\<close>, the
  lexicon view starts right after them in the acquired region and the item view
  after the declared lexicon size. Nothing in these conditions relates the declared
  counts to the size of the region.
\<close>

theorem load_dict_checks_header_only:
  assumes "\<not> mmap_fails s \<or> \<not> malloc_fails s" and "strlen hdr \<le> length fd"
  shows "((\<exists>dd' s'. load_dict hdr s dd (Some fd) = Inr (- 1, dd', s')) \<longleftrightarrow>
            take (strlen hdr) fd \<noteq> take (strlen hdr) hdr) \<and>
         (take (strlen hdr) fd = take (strlen hdr) hdr \<and> strlen hdr + 16 \<le> length fd \<longrightarrow>
            (\<exists>dd' s'. load_dict hdr s dd (Some fd) = Inr (0, dd', s') \<and>
               lexicon_length dd' = le_nat (take 8 (drop (strlen hdr) fd)) \<and>
               dat_item_count dd' = le_nat (take 8 (drop (strlen hdr + 8) fd)) \<and>
               lexicon dd' = wchars_of (drop (strlen hdr + 16) (acquired_region s fd)) \<and>
               dat dd' = items_of (drop ((strlen hdr + 16 +
                           (lexicon_length dd' * 4) mod 2 ^ 64) mod 2 ^ 64)
                           (acquired_region s fd)) \<and>
               dic_memory dd' = Some (acquired_region s fd) \<and> dic_size dd' = length fd))"
proof -
  let ?r = "acquired_region s fd"
  let ?dd1 = "dd\<lparr>dic_size := length fd,
      dic_memory_type := (if mmap_fails s then MEMORY_TYPE_ALLOCATE else MEMORY_TYPE_MMAP),
      dic_memory := Some ?r\<rparr>"
  have mem: "dic_memory ?dd1 = Some ?r" by simp
  note load = load_dict_acquired [OF assms(1), of hdr dd fd, unfolded Let_def]
  from assms(2) length_acquired_region [of fd s] have "strlen hdr \<le> length ?r"
    by simp
  from strncmp_header [OF this] take_acquired_region [OF assms(2), of s] obtain c where
    c: "strncmp ?r hdr (strlen hdr) = Inr c" and
    c0: "c = 0 \<longleftrightarrow> take (strlen hdr) fd = take (strlen hdr) hdr"
    by auto
  show ?thesis
  proof (cases "c = 0")
    case False
    from load_dict_parse_mismatch [OF mem c False] load
    have "\<exists>dd' s'. load_dict hdr s dd (Some fd) = Inr (- 1, dd', s')"
      by simp
    with False c0 show ?thesis by simp
  next
    case True
    have no: "\<not> (\<exists>dd' s'. load_dict hdr s dd (Some fd) = Inr (- 1, dd', s'))"
      using load c True mem
      by (auto simp: load_dict_parse_def Let_def split: sum.splits)
    have "\<exists>dd' s'. load_dict hdr s dd (Some fd) = Inr (0, dd', s') \<and>
        lexicon_length dd' = le_nat (take 8 (drop (strlen hdr) fd)) \<and>
        dat_item_count dd' = le_nat (take 8 (drop (strlen hdr + 8) fd)) \<and>
        lexicon dd' = wchars_of (drop (strlen hdr + 16) ?r) \<and>
        dat dd' = items_of (drop ((strlen hdr + 16 +
                    (lexicon_length dd' * 4) mod 2 ^ 64) mod 2 ^ 64) ?r) \<and>
        dic_memory dd' = Some ?r \<and> dic_size dd' = length fd"
      if fields: "strlen hdr + 16 \<le> length fd"
    proof -
      from c True have z: "strncmp ?r hdr (strlen hdr) = Inr 0" by simp
      from fields length_acquired_region [of fd s] have "strlen hdr + 16 \<le> length ?r"
        by simp
      note parse = load_dict_parse_match [OF mem z this]
      from fields have f1: "take 8 (drop (strlen hdr) ?r) = take 8 (drop (strlen hdr) fd)"
        by (intro field_acquired_region) simp
      from fields
      have f2: "take 8 (drop (strlen hdr + 8) ?r) = take 8 (drop (strlen hdr + 8) fd)"
        by (intro field_acquired_region) simp
      from parse load show ?thesis
        by (simp add: f1 f2)
    qed
    with no True c0 show ?thesis by simp
  qed
qed

text \<open>
  The truncated file holds 40 bytes and declares a lexicon of 13 characters and 6
  items, which would end at byte 152. It is loaded with result 0 by both strategies.
  In the heap buffer the lexicon view holds the 3 characters that are there and the
  item view holds nothing. The text file does not begin with the header and is
  refused.
\<close>

theorem load_dict_checks_header_only_witness:
  "strlen example_header \<le> length truncated_file \<and>
   take (strlen example_header) truncated_file
     = take (strlen example_header) example_header \<and>
   strlen example_header + 16 \<le> length truncated_file \<and>
   length truncated_file = 40 \<and>
   (\<exists>dd' s'. load_dict example_header (example_os\<lparr>mmap_fails := True\<rparr>) garbage
                (Some truncated_file) = Inr (0, dd', s') \<and>
      lexicon_length dd' = 13 \<and> dat_item_count dd' = 6 \<and>
      lexicon dd' = [65, 66, 0] \<and> dat dd' = [] \<and> dic_size dd' = 40) \<and>
   (\<exists>dd' s'. load_dict example_header example_os garbage (Some truncated_file)
                = Inr (0, dd', s') \<and>
      lexicon_length dd' = 13 \<and> dat_item_count dd' = 6 \<and> dic_size dd' = 40) \<and>
   (\<exists>dd' s'. load_dict example_header example_os garbage
                (Some [104, 101, 108, 108, 111, 32, 119, 111, 114, 108, 100, 33, 10])
                = Inr (- 1, dd', s'))"
proof -
  let ?txt = "[104, 101, 108, 108, 111, 32, 119, 111, 114, 108, 100, 33, 10] :: byte list"
  let ?heap = "example_os\<lparr>mmap_fails := True\<rparr>"
  have a: "\<not> mmap_fails example_os \<or> \<not> malloc_fails example_os"
    by (simp add: example_os_def)
  have a': "\<not> mmap_fails ?heap \<or> \<not> malloc_fails ?heap"
    by (simp add: example_os_def)
  have h: "strlen example_header = 12"
    by (simp add: strlen_def example_header_def)
  have len: "length truncated_file = 40"
    by (simp add: truncated_file_def)
  have b: "strlen example_header \<le> length truncated_file"
    by (simp add: h len)
  have t: "take (strlen example_header) truncated_file
      = take (strlen example_header) example_header"
    unfolding h by (simp add: truncated_file_def example_header_def)
  have c: "strlen example_header + 16 \<le> length truncated_file"
    by (simp add: h len)
  have r: "acquired_region ?heap truncated_file = truncated_file"
    by (simp add: acquired_region_def)
  have ll: "le_nat (take 8 (drop 12 truncated_file)) = 13"
    by (simp add: truncated_file_def le_nat_def)
  have ic: "le_nat (take 8 (drop 20 truncated_file)) = 6"
    by (simp add: truncated_file_def le_nat_def)
  have heap: "\<exists>dd' s'. load_dict example_header ?heap garbage (Some truncated_file)
        = Inr (0, dd', s') \<and>
      lexicon_length dd' = 13 \<and> dat_item_count dd' = 6 \<and>
      lexicon dd' = [65, 66, 0] \<and> dat dd' = [] \<and> dic_size dd' = 40"
  proof -
    from load_dict_checks_header_only [OF a' b, of garbage, THEN conjunct2] t c
    obtain dd' s' where
      l: "load_dict example_header ?heap garbage (Some truncated_file) = Inr (0, dd', s')"
      and ll': "lexicon_length dd'
          = le_nat (take 8 (drop (strlen example_header) truncated_file))"
      and ic': "dat_item_count dd'
          = le_nat (take 8 (drop (strlen example_header + 8) truncated_file))"
      and lx: "lexicon dd' = wchars_of (drop (strlen example_header + 16)
                 (acquired_region ?heap truncated_file))"
      and dt: "dat dd' = items_of (drop ((strlen example_header + 16 +
                 (lexicon_length dd' * 4) mod 2 ^ 64) mod 2 ^ 64)
                 (acquired_region ?heap truncated_file))"
      and sz: "dic_size dd' = length truncated_file"
      by blast
    from lx have lx': "lexicon dd' = [65, 66, 0]"
      unfolding r by (simp add: h truncated_file_def le_nat_def)
    from dt have dt': "dat dd' = []"
      unfolding r by (simp add: h ll' ll len)
    from l ll' ic' lx' dt' sz show ?thesis
      by (simp add: h ll ic len)
  qed
  have mapped: "\<exists>dd' s'. load_dict example_header example_os garbage (Some truncated_file)
        = Inr (0, dd', s') \<and>
      lexicon_length dd' = 13 \<and> dat_item_count dd' = 6 \<and> dic_size dd' = 40"
  proof -
    from load_dict_checks_header_only [OF a b, of garbage, THEN conjunct2] t c
    obtain dd' s' where
      "load_dict example_header example_os garbage (Some truncated_file) = Inr (0, dd', s')"
      "lexicon_length dd' = le_nat (take 8 (drop (strlen example_header) truncated_file))"
      "dat_item_count dd'
          = le_nat (take 8 (drop (strlen example_header + 8) truncated_file))"
      "dic_size dd' = length truncated_file"
      by blast
    then show ?thesis
      by (simp add: h ll ic len)
  qed
  have b': "strlen example_header \<le> length ?txt"
    by (simp add: h)
  have t': "take (strlen example_header) ?txt \<noteq> take (strlen example_header) example_header"
    unfolding h by (simp add: example_header_def)
  from load_dict_checks_header_only [OF a b', of garbage, THEN conjunct1] t'
  have refused: "\<exists>dd' s'. load_dict example_header example_os garbage (Some ?txt)
      = Inr (- 1, dd', s')"
    by simp
  from b t c len heap mapped refused show ?thesis by blast
qed

section \<open>The two memory strategies\<close>




























lemma load_example_file_heap:
  assumes "mmap_fails s" and "\<not> malloc_fails s"
  shows "load_dict example_header s garbage (Some example_file)
     = Inr (0, example_dict, s\<lparr>heap_buffers := heap_buffers s + 1\<rparr>)"
proof -
  have h: "strlen example_header = 12"
    by (simp add: strlen_def example_header_def)
  have len: "length example_file = 152"
    by (simp add: example_file_def)
  have c: "strncmp example_file example_header 12 = Inr 0"
    by (simp add: example_file_def example_header_def eval_nat_numeral)
  from assms have a: "\<not> mmap_fails s \<or> \<not> malloc_fails s"
    by simp
  from assms have r: "acquired_region s example_file = example_file"
    by (simp add: acquired_region_def)
  let ?dd1 = "garbage\<lparr>dic_size := length example_file,
      dic_memory_type := MEMORY_TYPE_ALLOCATE,
      dic_memory := Some example_file\<rparr>"
  have mem: "dic_memory ?dd1 = Some example_file" by simp
  have l: "le_nat (take 8 (drop 12 example_file)) = 13"
    "le_nat (take 8 (drop 20 example_file)) = 6"
    by (simp_all add: example_file_def le_nat_def)
  have lx: "wchars_of (drop 28 example_file) = lexicon example_dict"
    by (simp add: example_file_def example_dict_def le_nat_def)
  have dt: "items_of (drop 80 example_file) = dat example_dict"
    by (simp add: example_file_def example_dict_def le_nat_def)
  from load_dict_parse_match [OF mem, of example_header] c h len
  have "load_dict_parse example_header ?dd1 =
      Inr (0, ?dd1\<lparr>lexicon_length := 13, dat_item_count := 6,
                     lexicon := lexicon example_dict, dat := dat example_dict\<rparr>)"
    by (simp add: l lx dt)
  moreover have "?dd1\<lparr>lexicon_length := 13, dat_item_count := 6,
      lexicon := lexicon example_dict, dat := dat example_dict\<rparr> = example_dict"
    by (simp add: example_dict_def garbage_def len)
  ultimately have "load_dict_parse example_header ?dd1 = Inr (0, example_dict)"
    by simp
  with load_dict_acquired [OF a, of example_header garbage example_file] assms show ?thesis
    by (simp add: Let_def r)
qed





section \<open>Closing and opening\<close>

lemma dict_datrie_close_frees:
  assumes "handles s dp = Some dd"
  shows "\<exists>rc s'. dict_datrie_close s dp = Inr (rc, s') \<and> rc = fst (unload_dict s dd) \<and>
           handles s' = (handles s)(dp := None)"
  using assms
  by (auto simp: dict_datrie_close_def unload_dict_def Let_def split: prod.splits)

text \<open>
  C8. Unloading a dictionary whose region is the null pointer returns 0 and changes
  nothing. Closing a handle whose region is mapped when \<^verbatim>\<open>munmap\<close> fails returns
  \<open>- 1\<close>. In every case closing an allocated handle returns (0 or \<open>- 1\<close>, the result of
  unloading) and the handle structure is freed: its address is no longer among the
  allocated handles, and no other handle is touched.
\<close>

theorem close_frees_handle_in_every_case:
  "(dic_memory dd = None \<longrightarrow> unload_dict s dd = (0, s)) \<and>
   (handles s dp = Some dd \<and> dic_memory dd = None \<longrightarrow>
      dict_datrie_close s dp = Inr (0, s\<lparr>handles := (handles s)(dp := None)\<rparr>)) \<and>
   (handles s dp = Some dd \<and> dic_memory dd \<noteq> None \<and>
    dic_memory_type dd = MEMORY_TYPE_MMAP \<and> munmap_fails s \<longrightarrow>
      dict_datrie_close s dp = Inr (- 1, s\<lparr>handles := (handles s)(dp := None)\<rparr>)) \<and>
   (handles s dp = Some dd \<longrightarrow>
      (\<exists>rc s'. dict_datrie_close s dp = Inr (rc, s') \<and> (rc = 0 \<or> rc = - 1) \<and>
         handles s' dp = None \<and> (\<forall>q. q \<noteq> dp \<longrightarrow> handles s' q = handles s q)))"
proof -
  have "unload_dict s dd = (0, s)" if "dic_memory dd = None"
    using that by (simp add: unload_dict_def)
  moreover have "dict_datrie_close s dp = Inr (0, s\<lparr>handles := (handles s)(dp := None)\<rparr>)"
    if "handles s dp = Some dd" "dic_memory dd = None"
    using that by (simp add: dict_datrie_close_def unload_dict_def)
  moreover have "dict_datrie_close s dp = Inr (- 1, s\<lparr>handles := (handles s)(dp := None)\<rparr>)"
    if "handles s dp = Some dd" "dic_memory dd \<noteq> None"
      "dic_memory_type dd = MEMORY_TYPE_MMAP" "munmap_fails s"
    using that by (simp add: dict_datrie_close_def unload_dict_def)
  moreover have "\<exists>rc s'. dict_datrie_close s dp = Inr (rc, s') \<and> (rc = 0 \<or> rc = - 1) \<and>
      handles s' dp = None \<and> (\<forall>q. q \<noteq> dp \<longrightarrow> handles s' q = handles s q)"
    if "handles s dp = Some dd"
  proof -
    from dict_datrie_close_frees [OF that] obtain rc s' where
      "dict_datrie_close s dp = Inr (rc, s')" "rc = fst (unload_dict s dd)"
      "handles s' = (handles s)(dp := None)"
      by blast
    moreover have "fst (unload_dict s dd) = 0 \<or> fst (unload_dict s dd) = - 1"
      by (simp add: unload_dict_def)
    ultimately show ?thesis by auto
  qed
  ultimately show ?thesis by blast
qed

text \<open>
  The handle of the mapped truncated file at the address 4096 of a system whose
  \<^verbatim>\<open>munmap\<close> fails: closing returns \<open>- 1\<close>, the region stays mapped and the handle
  structure is freed.
\<close>

theorem close_frees_handle_in_every_case_witness:
  "handles (example_os\<lparr>munmap_fails := True,
      handles := (\<lambda>p. None)(4096 \<mapsto> truncated_mapped_dict),
      mapped_regions := 1\<rparr>) 4096 = Some truncated_mapped_dict \<and>
   dic_memory truncated_mapped_dict \<noteq> None \<and>
   dic_memory_type truncated_mapped_dict = MEMORY_TYPE_MMAP \<and>
   munmap_fails (example_os\<lparr>munmap_fails := True,
      handles := (\<lambda>p. None)(4096 \<mapsto> truncated_mapped_dict), mapped_regions := 1\<rparr>) \<and>
   (\<exists>s'. dict_datrie_close (example_os\<lparr>munmap_fails := True,
            handles := (\<lambda>p. None)(4096 \<mapsto> truncated_mapped_dict),
            mapped_regions := 1\<rparr>) 4096
          = Inr (- 1, s') \<and>
      handles s' 4096 = None \<and> mapped_regions s' = 1) \<and>
   dic_memory garbage \<noteq> None \<and>
   unload_dict example_os (garbage\<lparr>dic_memory := None\<rparr>) = (0, example_os)"
proof -
  let ?s = "example_os\<lparr>munmap_fails := True,
      handles := (\<lambda>p. None)(4096 \<mapsto> truncated_mapped_dict), mapped_regions := 1\<rparr>"
  have h: "handles ?s 4096 = Some truncated_mapped_dict" by simp
  have m: "dic_memory truncated_mapped_dict \<noteq> None"
    "dic_memory_type truncated_mapped_dict = MEMORY_TYPE_MMAP"
    by (simp_all add: truncated_mapped_dict_def)
  have f: "munmap_fails ?s" by simp
  note inst = close_frees_handle_in_every_case [of truncated_mapped_dict ?s 4096]
  from inst h m f have "dict_datrie_close ?s 4096
      = Inr (- 1, ?s\<lparr>handles := (handles ?s)(4096 := None)\<rparr>)"
    by blast
  then have "\<exists>s'. dict_datrie_close ?s 4096 = Inr (- 1, s') \<and>
      handles s' 4096 = None \<and> mapped_regions s' = 1"
    by simp
  moreover from close_frees_handle_in_every_case
    [of "garbage\<lparr>dic_memory := None\<rparr>" example_os 0]
  have "unload_dict example_os (garbage\<lparr>dic_memory := None\<rparr>) = (0, example_os)"
    by simp
  moreover have "dic_memory garbage \<noteq> None"
    by (simp add: garbage_def)
  ultimately show ?thesis using h m f by blast
qed

lemma load_dict_fails:
  assumes "(mmap_fails s \<and> malloc_fails s) \<or>
      (\<exists>c. strncmp fd hdr (strlen hdr) = Inr c \<and> c \<noteq> 0)"
  shows "\<exists>dd' s'. load_dict hdr s dd (Some fd) = Inr (- 1, dd', s') \<and> handles s' = handles s"
proof (cases "mmap_fails s \<and> malloc_fails s")
  case True
  then show ?thesis
    by (simp add: load_dict_def load_mmap_def load_allocate_def Let_def)
next
  case False
  with assms obtain c where c: "strncmp fd hdr (strlen hdr) = Inr c" "c \<noteq> 0"
    by blast
  from False have a: "\<not> mmap_fails s \<or> \<not> malloc_fails s" by simp
  let ?dd1 = "dd\<lparr>dic_size := length fd,
      dic_memory_type := (if mmap_fails s then MEMORY_TYPE_ALLOCATE else MEMORY_TYPE_MMAP),
      dic_memory := Some (acquired_region s fd)\<rparr>"
  have mem: "dic_memory ?dd1 = Some (acquired_region s fd)" by simp
  from c(1) have "strncmp (acquired_region s fd) hdr (strlen hdr) = Inr c"
    by (simp add: acquired_region_def strncmp_append)
  from load_dict_parse_mismatch [OF mem this c(2)]
    load_dict_acquired [OF a, of hdr dd fd, unfolded Let_def]
  show ?thesis by simp
qed

lemma dict_datrie_open_missing_file:
  assumes "next_handle s \<noteq> 0" and "files s filename = None"
  shows "dict_datrie_open hdr s filename = Inl NullPointer"
  using assms by (simp add: dict_datrie_open_def load_dict_def Let_def)

lemma dict_datrie_open_not_null:
  assumes "dict_datrie_open hdr s filename = Inr (dp, s')"
  shows "dp \<noteq> 0"
  using assms
  by (auto simp: dict_datrie_open_def Let_def split: if_splits sum.splits prod.splits)

text \<open>
  C10. When the load fails, because both \<^verbatim>\<open>mmap\<close> and \<^verbatim>\<open>malloc\<close> fail or because the
  header comparison gives a non-zero result, \<open>dict_datrie_open\<close> returns the pointer
  \<open>- 1\<close> and the handle structure it had allocated is freed. That pointer is not the
  null pointer, and no pointer that \<open>dict_datrie_open\<close> returns is null: a test of the
  result against \<^verbatim>\<open>NULL\<close> does not see the failure.
\<close>

theorem failed_open_returns_minus_one:
  assumes "next_handle s \<noteq> 0" and "files s filename = Some fd"
    and "(mmap_fails s \<and> malloc_fails s) \<or>
         (\<exists>c. strncmp fd hdr (strlen hdr) = Inr c \<and> c \<noteq> 0)"
  shows "(\<exists>s'. dict_datrie_open hdr s filename = Inr (- 1, s') \<and>
            handles s' = (handles s)(next_handle s := None)) \<and>
         (- 1 :: dict_ptr) \<noteq> 0 \<and>
         (dict_datrie_open hdr s filename = Inr (dp, s'') \<longrightarrow> dp \<noteq> 0)"
proof -
  let ?s1 = "s\<lparr>open_streams := open_streams s + 1\<rparr>"
  let ?dd = "(uninitialised s)\<lparr>dat := [], lexicon := []\<rparr>"
  from assms(3) have "(mmap_fails ?s1 \<and> malloc_fails ?s1) \<or>
      (\<exists>c. strncmp fd hdr (strlen hdr) = Inr c \<and> c \<noteq> 0)"
    by simp
  from load_dict_fails [OF this, of ?dd] obtain dd' s' where
    l: "load_dict hdr ?s1 ?dd (Some fd) = Inr (- 1, dd', s')" and
    h: "handles s' = handles s"
    by auto
  let ?s2 = "s'\<lparr>handles := (handles s')(next_handle s \<mapsto> dd')\<rparr>"
  have "handles ?s2 (next_handle s) = Some dd'" by simp
  from dict_datrie_close_frees [OF this] obtain rc s3 where
    c: "dict_datrie_close ?s2 (next_handle s) = Inr (rc, s3)" and
    h3: "handles s3 = (handles ?s2)(next_handle s := None)"
    by blast
  from assms(1,2) l c have "dict_datrie_open hdr s filename = Inr (- 1, s3)"
    by (simp add: dict_datrie_open_def Let_def)
  moreover from h3 h have "handles s3 = (handles s)(next_handle s := None)"
    by simp
  moreover have "(- 1 :: dict_ptr) \<noteq> 0" by simp
  moreover have "dp \<noteq> 0" if "dict_datrie_open hdr s filename = Inr (dp, s'')"
    using that by (rule dict_datrie_open_not_null)
  ultimately show ?thesis by blast
qed

text \<open>
  Opening the text file, which does not begin with the header, and opening the
  dictionary file when neither \<^verbatim>\<open>mmap\<close> nor \<^verbatim>\<open>malloc\<close> succeeds: both return \<open>- 1\<close>,
  which is not null, and leave no handle at the address 4096.
\<close>

theorem failed_open_returns_minus_one_witness:
  "next_handle example_os \<noteq> 0 \<and>
   (\<exists>c. strncmp [104, 101, 108, 108, 111, 32, 119, 111, 114, 108, 100, 33, 10]
          example_header (strlen example_header) = Inr c \<and> c \<noteq> 0) \<and>
   (\<exists>s'. dict_datrie_open example_header example_os ''text.txt'' = Inr (- 1, s') \<and>
      handles s' 4096 = None) \<and>
   (\<exists>s'. dict_datrie_open example_header
            (example_os\<lparr>mmap_fails := True, malloc_fails := True\<rparr>) ''dict.ocd''
          = Inr (- 1, s') \<and>
      handles s' 4096 = None) \<and>
   (- 1 :: dict_ptr) \<noteq> 0"
proof -
  let ?txt = "[104, 101, 108, 108, 111, 32, 119, 111, 114, 108, 100, 33, 10] :: byte list"
  let ?s = "example_os\<lparr>mmap_fails := True, malloc_fails := True\<rparr>"
  have n: "next_handle example_os \<noteq> 0" "next_handle ?s \<noteq> 0"
    by (simp_all add: example_os_def)
  have n': "next_handle example_os = 4096" "next_handle ?s = 4096"
    by (simp_all add: example_os_def)
  have f: "files example_os ''text.txt'' = Some ?txt"
    "files ?s ''dict.ocd'' = Some example_file"
    by (simp_all add: example_os_def)
  have h: "strlen example_header = Suc 11"
    by (simp add: strlen_def example_header_def)
  have "strncmp ?txt example_header (Suc 11) = Inr 25"
    by (simp only: strncmp.simps) (simp add: example_header_def)
  then have c: "\<exists>c. strncmp ?txt example_header (strlen example_header) = Inr c \<and> c \<noteq> 0"
    unfolding h by simp
  then have c': "(mmap_fails example_os \<and> malloc_fails example_os) \<or>
      (\<exists>c. strncmp ?txt example_header (strlen example_header) = Inr c \<and> c \<noteq> 0)"
    by (rule disjI2)
  have "mmap_fails ?s \<and> malloc_fails ?s" by simp
  then have b: "(mmap_fails ?s \<and> malloc_fails ?s) \<or>
      (\<exists>c. strncmp example_file example_header (strlen example_header) = Inr c \<and> c \<noteq> 0)"
    by (rule disjI1)
  have first: "\<exists>s'. dict_datrie_open example_header example_os ''text.txt'' = Inr (- 1, s') \<and>
      handles s' 4096 = None"
  proof -
    from failed_open_returns_minus_one [OF n(1) f(1) c', THEN conjunct1]
    obtain s' where o: "dict_datrie_open example_header example_os ''text.txt'' = Inr (- 1, s')"
      and hs: "handles s' = (handles example_os)(next_handle example_os := None)"
      by blast
    from hs have "handles s' 4096 = None"
      by (simp add: n')
    with o show ?thesis by blast
  qed
  have second: "\<exists>s'. dict_datrie_open example_header ?s ''dict.ocd'' = Inr (- 1, s') \<and>
      handles s' 4096 = None"
  proof -
    from failed_open_returns_minus_one [OF n(2) f(2) b, THEN conjunct1]
    obtain s' where o: "dict_datrie_open example_header ?s ''dict.ocd'' = Inr (- 1, s')"
      and hs: "handles s' = (handles ?s)(next_handle ?s := None)"
      by blast
    from hs have "handles s' 4096 = None"
      by (simp only: n') simp
    with o show ?thesis by blast
  qed
  have "(- 1 :: dict_ptr) \<noteq> 0" by simp
  with n(1) c first second show ?thesis by blast
qed

text \<open>
  Opening the dictionary file when \<^verbatim>\<open>mmap\<close> fails succeeds: the handle at the
  address 4096 is the example dictionary, one heap buffer is allocated and the stream
  is closed again. Closing it then releases the buffer and the handle.
\<close>

lemma open_example_file:
  "dict_datrie_open example_header (example_os\<lparr>mmap_fails := True\<rparr>) ''dict.ocd''
     = Inr (4096, example_os\<lparr>mmap_fails := True,
                              handles := (\<lambda>p. None)(4096 \<mapsto> example_dict),
                              heap_buffers := 1\<rparr>)"
proof -
  let ?s0 = "example_os\<lparr>mmap_fails := True\<rparr>"
  let ?s1 = "?s0\<lparr>open_streams := Suc (open_streams example_os)\<rparr>"
  let ?s2 = "?s1\<lparr>heap_buffers := Suc (heap_buffers example_os)\<rparr>"
  have n: "next_handle ?s0 = 4096"
    and f: "files ?s0 ''dict.ocd'' = Some example_file"
    by (simp_all add: example_os_def)
  have u: "(uninitialised ?s0)\<lparr>dat := [], lexicon := []\<rparr> = garbage"
    by (simp add: example_os_def garbage_def)
  have "mmap_fails ?s1" "\<not> malloc_fails ?s1"
    by (simp_all add: example_os_def)
  then have l: "load_dict example_header ?s1 garbage (Some example_file)
      = Inr (0, example_dict, ?s2)"
    by (simp add: load_example_file_heap)
  have "dict_datrie_open example_header ?s0 ''dict.ocd''
      = Inr (4096, ?s2\<lparr>handles := (handles ?s2)(4096 \<mapsto> example_dict),
                        open_streams := open_streams ?s2 - 1\<rparr>)"
    unfolding dict_datrie_open_def Let_def n f u
    by (simp add: l del: fun_upd_apply)
  moreover have "?s2\<lparr>handles := (handles ?s2)(4096 \<mapsto> example_dict),
      open_streams := open_streams ?s2 - 1\<rparr>
      = example_os\<lparr>mmap_fails := True,
          handles := (\<lambda>p. None)(4096 \<mapsto> example_dict), heap_buffers := 1\<rparr>"
    by (simp add: example_os_def)
  ultimately show ?thesis by simp
qed

lemma close_example_file:
  "dict_datrie_close (example_os\<lparr>mmap_fails := True,
      handles := (\<lambda>p. None)(4096 \<mapsto> example_dict),
      heap_buffers := 1\<rparr>) 4096 = Inr (0, example_os\<lparr>mmap_fails := True\<rparr>)"
proof -
  let ?s = "example_os\<lparr>mmap_fails := True,
      handles := (\<lambda>p. None)(4096 \<mapsto> example_dict), heap_buffers := 1\<rparr>"
  have "handles ?s 4096 = Some example_dict" by simp
  moreover have "unload_dict ?s example_dict = (0, ?s\<lparr>heap_buffers := 0\<rparr>)"
    by (simp add: unload_dict_def example_dict_def example_os_def)
  ultimately have "dict_datrie_close ?s 4096
      = Inr (0, ?s\<lparr>heap_buffers := 0, handles := (\<lambda>p. None)\<rparr>)"
    by (simp add: dict_datrie_close_def)
  moreover have "?s\<lparr>heap_buffers := 0, handles := (\<lambda>p. None)\<rparr>
      = example_os\<lparr>mmap_fails := True\<rparr>"
    by (simp add: example_os_def)
  ultimately show ?thesis by simp
qed

text \<open>
  C5. \<open>dict_datrie_open\<close> returns \<open>- 1\<close> when the header does not match and when both
  \<^verbatim>\<open>mmap\<close> and \<^verbatim>\<open>malloc\<close> fail (see C10). For a file that cannot be opened it
  returns nothing: \<^verbatim>\<open>fopen\<close> gives the null stream, which \<open>load_dict\<close> hands to
  \<^verbatim>\<open>fileno\<close>, \<^verbatim>\<open>fseek\<close> and \<^verbatim>\<open>ftell\<close> without a test.
\<close>

theorem open_missing_file_uses_null_stream:
  "files example_os ''missing.ocd'' = None \<and>
   dict_datrie_open example_header example_os ''missing.ocd'' = Inl NullPointer"
proof -
  have "files example_os ''missing.ocd'' = None" "next_handle example_os \<noteq> 0"
    by (simp_all add: example_os_def)
  then show ?thesis
    by (simp add: dict_datrie_open_missing_file)
qed

end
